theory Spec2Isabelle
  imports Main "HOL-Library.Word" "HOL-Library.AList"
begin

section \<open>Rate limiter (src/src/rate-limiter.js)\<close>

text \<open>
  A rate-limit record as the constructor of \<open>isAllowed\<close> builds it: the timestamps of the
  allowed attempts, the blocked flag and the end of the block. Timestamps are the values of
  \<open>Date.now()\<close>, integers of milliseconds; the clock is a parameter \<open>now\<close> of every
  operation that reads it.
\<close>

record limit_record =
  attempts :: "int list"
  blocked :: bool
  blockedUntil :: int

type_synonym limits = "string \<rightharpoonup> limit_record"

text \<open>The template string \<open>`${actionType}:${identifier}`\<close>.\<close>

definition limit_key :: "string \<Rightarrow> string \<Rightarrow> string" where
  "limit_key actionType identifier = actionType @ '':'' @ identifier"

definition new_record :: limit_record where
  "new_record = \<lparr>attempts = [], blocked = False, blockedUntil = 0\<rparr>"

text \<open>The record \<open>this.limits.get(key)\<close> after the initialisation step of \<open>isAllowed\<close>.\<close>

definition record_of :: "limits \<Rightarrow> string \<Rightarrow> limit_record" where
  "record_of lim key = (case lim key of None \<Rightarrow> new_record | Some r \<Rightarrow> r)"

text \<open>The body of \<open>isAllowed\<close> on the record, lines 33 to 57.\<close>

definition check_record :: "int \<Rightarrow> int \<Rightarrow> int \<Rightarrow> limit_record \<Rightarrow> bool \<times> limit_record" where
  "check_record now maxAttempts timeWindowMs r =
     (if blocked r \<and> now < blockedUntil r then (False, r)
      else
        let r1 = (if blocked r then r\<lparr>blocked := False\<rparr> else r);
            r2 = r1\<lparr>attempts := filter (\<lambda>timestamp. now - timestamp < timeWindowMs) (attempts r1)\<rparr>
        in if int (length (attempts r2)) \<ge> maxAttempts
           then (False, r2\<lparr>blocked := True, blockedUntil := now + timeWindowMs * 2\<rparr>)
           else (True, r2\<lparr>attempts := attempts r2 @ [now]\<rparr>))"

definition isAllowed ::
  "int \<Rightarrow> string \<Rightarrow> string \<Rightarrow> int \<Rightarrow> int \<Rightarrow> limits \<Rightarrow> bool \<times> limits" where
  "isAllowed now actionType identifier maxAttempts timeWindowMs lim =
     (let key = limit_key actionType identifier;
          (ok, r) = check_record now maxAttempts timeWindowMs (record_of lim key)
      in (ok, lim(key \<mapsto> r)))"

definition getTimeUntilAllowed :: "int \<Rightarrow> string \<Rightarrow> string \<Rightarrow> limits \<Rightarrow> int" where
  "getTimeUntilAllowed now actionType identifier lim =
     (case lim (limit_key actionType identifier) of
        None \<Rightarrow> 0
      | Some r \<Rightarrow> if blocked r \<and> now < blockedUntil r then blockedUntil r - now else 0)"

definition reset :: "string \<Rightarrow> string \<Rightarrow> limits \<Rightarrow> limits" where
  "reset actionType identifier lim = lim(limit_key actionType identifier := None)"

text \<open>Vocabulary of the claims: a cooldown is active; the timestamps inside the window.\<close>

definition in_cooldown :: "int \<Rightarrow> limit_record \<Rightarrow> bool" where
  "in_cooldown now r = (blocked r \<and> now < blockedUntil r)"

definition in_window :: "int \<Rightarrow> int \<Rightarrow> limit_record \<Rightarrow> int list" where
  "in_window now timeWindowMs r = filter (\<lambda>timestamp. now - timestamp < timeWindowMs) (attempts r)"

text \<open>A limiter that has allowed two connection attempts, at times 0 and 1.\<close>

definition example_limits :: limits where
  "example_limits =
     [limit_key ''connect'' ''me'' \<mapsto> \<lparr>attempts = [0, 1], blocked = False, blockedUntil = 0\<rparr>]"


section \<open>JavaScript values\<close>

text \<open>
  The values a wire message or a stored message object can hold in its fields. Numbers are
  the integers (timestamps are integers of milliseconds; NaN, the infinities, negative zero
  and fractions are outside the model), strings are lists of 8-bit characters (code units
  below 256). \<open>JObj r k\<close> is an object, array or function: \<open>r\<close> is its reference, which
  tells one object from another, and \<open>k\<close> is the string that \<open>String\<close> makes of it, which
  is what a table takes for its key. An object is truthy and of no primitive type.

  Equality of these values is the strict equality \<open>===\<close> of the source (and the
  \<open>SameValueZero\<close> of \<open>includes\<close>): primitives are equal when they have the same type and
  value, so the number 7 and the string \<open>7\<close> are different, and an object is equal to
  itself only. Two receipts of one wire message deserialise an object in it to two objects,
  of different references.
\<close>

datatype jsval = JUndefined | JNull | JBool bool | JNum int | JStr string | JObj nat string

fun truthy :: "jsval \<Rightarrow> bool" where
  "truthy JUndefined = False"
| "truthy JNull = False"
| "truthy (JBool b) = b"
| "truthy (JNum n) = (n \<noteq> 0)"
| "truthy (JStr s) = (s \<noteq> [])"
| "truthy (JObj r k) = True"

fun is_string :: "jsval \<Rightarrow> bool" where
  "is_string (JStr s) = True"
| "is_string v = False"

fun is_number :: "jsval \<Rightarrow> bool" where
  "is_number (JNum n) = True"
| "is_number v = False"

text \<open>An object is the list of its own properties, in the order of \<open>Object.keys\<close>.\<close>

type_synonym obj = "(string \<times> jsval) list"

definition get_prop :: "obj \<Rightarrow> string \<Rightarrow> jsval" where
  "get_prop ob k = (case map_of ob k of None \<Rightarrow> JUndefined | Some v \<Rightarrow> v)"

text \<open>Decimal and hexadecimal numerals, as \<open>String(n)\<close> and \<open>n.toString(16)\<close> print them.\<close>

definition digit_char :: "nat \<Rightarrow> char" where
  "digit_char d = ''0123456789abcdef'' ! d"

fun nat_to_base :: "nat \<Rightarrow> nat \<Rightarrow> string" where
  "nat_to_base b n =
     (if b < 2 \<or> n < b then [digit_char n]
      else nat_to_base b (n div b) @ [digit_char (n mod b)])"

text \<open>
  \<open>String(n)\<close> prints an integer of magnitude up to \<open>2^53\<close> by its decimal digits.
  Beyond that it prints the shortest digits that name the double, filled up with zeros, and
  from \<open>10^21\<close> on the exponent form (\<open>1e+21\<close>); which string that is, is left open
  here (\<open>big_numeral\<close> has no defining equation of its own), so what is proved below
  holds whatever it is.
\<close>

definition big_numeral :: "int \<Rightarrow> string" where
  "big_numeral = undefined"

definition int_to_string :: "int \<Rightarrow> string" where
  "int_to_string i =
     (if 9007199254740992 < \<bar>i\<bar> then big_numeral i
      else if i < 0 then CHR ''-'' # nat_to_base 10 (nat (- i))
      else nat_to_base 10 (nat i))"

text \<open>The string a template literal or a property key makes of a value.\<close>

fun js_to_string :: "jsval \<Rightarrow> string" where
  "js_to_string JUndefined = ''undefined''"
| "js_to_string JNull = ''null''"
| "js_to_string (JBool b) = (if b then ''true'' else ''false'')"
| "js_to_string (JNum n) = int_to_string n"
| "js_to_string (JStr s) = s"
| "js_to_string (JObj r k) = k"

text \<open>
  A table of the source is a plain object used as a dictionary: \<open>table[k]\<close> finds the
  table's own entry of key \<open>k\<close>, and where there is none, the member of \<open>Object.prototype\<close>
  of that name. Every such member is truthy, and none has a method \<open>includes\<close>, \<open>filter\<close>
  or \<open>push\<close>, so calling one of them on it throws a \<open>TypeError\<close>. Each member is listed
  here with its \<open>length\<close> property (the arity of a function; the object behind
  \<open>__proto__\<close> has none).
\<close>

definition OBJECT_PROTOTYPE :: "(string \<times> nat option) list" where
  "OBJECT_PROTOTYPE =
     [(''constructor'', Some 1), (''hasOwnProperty'', Some 1), (''isPrototypeOf'', Some 1),
      (''propertyIsEnumerable'', Some 1), (''toLocaleString'', Some 0), (''toString'', Some 0),
      (''valueOf'', Some 0), (''__defineGetter__'', Some 2), (''__defineSetter__'', Some 2),
      (''__lookupGetter__'', Some 1), (''__lookupSetter__'', Some 1), (''__proto__'', None)]"

datatype 'v found = Own 'v | Inherited "nat option" | Missing

definition table_get :: "(string \<rightharpoonup> 'v) \<Rightarrow> string \<Rightarrow> 'v found" where
  "table_get table k =
     (case table k of
        Some v \<Rightarrow> Own v
      | None \<Rightarrow> (case map_of OBJECT_PROTOTYPE k of Some len \<Rightarrow> Inherited len | None \<Rightarrow> Missing))"

text \<open>The key \<open>k\<close> finds an inherited member in the table, not an entry.\<close>

definition inherited :: "(string \<rightharpoonup> 'v) \<Rightarrow> string \<Rightarrow> bool" where
  "inherited table k = (table k = None \<and> map_of OBJECT_PROTOTYPE k \<noteq> None)"

section \<open>Message distribution (src/src/tweet-manager.js)\<close>

subsection \<open>State, connections and effects\<close>

text \<open>
  A session as the distribution engine sees it: the peer id \<open>conn.peer\<close> and whether
  \<open>conn.send\<close> returns (\<open>sendable\<close>) or throws. \<open>cid\<close> tells two connection objects
  to the same peer apart.
\<close>

record conn =
  cid :: nat
  peer :: string
  sendable :: bool

text \<open>The payloads this component sends, by their \<open>type\<close> tag.\<close>

datatype payload =
    Tweet obj
  | TweetAck jsval
  | AllTweets "obj list"
  | BulkTweetAck "jsval list"

text \<open>
  What an operation does to the outside: a \<open>conn.send\<close> that returned or threw, a call of
  \<open>storageManager.saveToStorage\<close> with one of the keys of \<open>StorageManager.KEYS\<close>, and a
  call of \<open>mediaManager.deleteMedia\<close>.
\<close>

datatype storage_key = TWEETS | TWEET_RECIPIENTS | UNSENT_TWEETS

datatype effect =
    Sent string payload
  | SendFailed string payload
  | Save storage_key
  | DeleteMedia jsval

fun is_send :: "effect \<Rightarrow> bool" where
  "is_send (Sent p m) = True"
| "is_send (SendFailed p m) = True"
| "is_send (Save k) = False"
| "is_send (DeleteMedia m) = False"

text \<open>
  The \<open>async\<close> methods run on the caller's stack up to their first \<open>await\<close> and no
  further: the rest runs later, after whatever else the event loop runs first. Neither
  \<open>saveToStorage\<close> nor \<open>deleteMedia\<close> does anything before its own first \<open>await\<close>, so
  a call of one of them is an effect and then a wait. What waits is kept in the state:
  \<open>ThenSaveDistribution\<close> is \<open>saveTweets\<close> after line 120, \<open>ThenSaveUnsent\<close> is
  \<open>saveMessageDistributionState\<close> after line 126, \<open>ThenFinishDelete tweetId n\<close> is
  \<open>deleteTweet(tweetId)\<close> after line 303 with \<open>n\<close> its \<open>initialLength\<close>, and
  \<open>ThenPurgeMedia ms\<close> is \<open>deleteAllTweets\<close> inside its loop at line 364 with \<open>ms\<close> the
  attachments still to delete.
\<close>

datatype deferred =
    ThenSaveDistribution
  | ThenSaveUnsent
  | ThenFinishDelete jsval nat
  | ThenPurgeMedia "jsval list"

text \<open>
  The fields of \<open>TweetManager\<close>: the log \<open>tweets\<close> (message objects), \<open>tweetRecipients\<close>
  from message id to peer ids, \<open>unsentTweets\<close> from peer id to message ids, the rate
  limiter; then what waits, and the trace of effects so far. The two tables hold their
  own entries; a message id is the key of \<open>tweetRecipients\<close> by its string form and an
  element of an unsent queue as it is.

  The notifications to the user interface (\<open>onTweetsUpdated\<close>) and the console output are
  left out. Every operation reads the clock once.
\<close>

record tm_state =
  tweets :: "obj list"
  tweetRecipients :: "string \<rightharpoonup> string list"
  unsentTweets :: "string \<rightharpoonup> jsval list"
  rateLimiter :: limits
  suspended :: "deferred list"
  effects :: "effect list"

definition init_state :: tm_state where
  "init_state = \<lparr>tweets = [], tweetRecipients = Map.empty, unsentTweets = Map.empty,
                  rateLimiter = Map.empty, suspended = [], effects = []\<rparr>"

definition MAX_TWEET_LENGTH :: nat where "MAX_TWEET_LENGTH = 1000"
definition MAX_TWEETS_STORAGE :: nat where "MAX_TWEETS_STORAGE = 1000"
definition MESSAGE_MAX_COUNT :: int where "MESSAGE_MAX_COUNT = 10"
definition MESSAGE_TIME_WINDOW_MS :: int where "MESSAGE_TIME_WINDOW_MS = 60000"
definition BATCH_SIZE :: nat where "BATCH_SIZE = 20"

definition VALID_TWEET_PROPS :: "string list" where
  "VALID_TWEET_PROPS =
     [''id'', ''username'', ''content'', ''timestamp'', ''mediaId'', ''mediaThumbnail'', ''mediaType'']"

text \<open>\<open>tweet.id\<close>, as stored, and the key it makes in \<open>tweetRecipients\<close>.\<close>

definition tweet_id :: "obj \<Rightarrow> jsval" where
  "tweet_id t = get_prop t ''id''"

definition tweet_key :: "obj \<Rightarrow> string" where
  "tweet_key t = js_to_string (tweet_id t)"

definition tweet_time :: "obj \<Rightarrow> int" where
  "tweet_time t = (case get_prop t ''timestamp'' of JNum n \<Rightarrow> n | _ \<Rightarrow> 0)"

definition log_effects :: "effect list \<Rightarrow> tm_state \<Rightarrow> tm_state" where
  "log_effects es s = s\<lparr>effects := effects s @ es\<rparr>"

definition suspend :: "deferred \<Rightarrow> tm_state \<Rightarrow> tm_state" where
  "suspend d s = s\<lparr>suspended := suspended s @ [d]\<rparr>"

text \<open>
  \<open>sortTweets\<close>: \<open>Array.prototype.sort\<close> is stable, and the comparator
  \<open>b.timestamp - a.timestamp\<close> orders by descending creation time.
\<close>

definition sortTweets :: "obj list \<Rightarrow> obj list" where
  "sortTweets ts = sort_key (\<lambda>t. - tweet_time t) ts"

text \<open>
  \<open>saveMessageDistributionState\<close> and \<open>saveTweets\<close>, each up to its first \<open>await\<close>:
  the first asks for the write of the recipients and waits; the second cuts the log to the
  maximum, asks for the write of the log and waits. No caller awaits either of them.
\<close>

definition saveMessageDistributionState :: "tm_state \<Rightarrow> tm_state" where
  "saveMessageDistributionState s = suspend ThenSaveUnsent (log_effects [Save TWEET_RECIPIENTS] s)"

definition saveTweets :: "tm_state \<Rightarrow> tm_state" where
  "saveTweets s =
     (let s1 = (if length (tweets s) > MAX_TWEETS_STORAGE
                then s\<lparr>tweets := take MAX_TWEETS_STORAGE (tweets s)\<rparr> else s)
      in suspend ThenSaveDistribution (log_effects [Save TWEETS] s1))"

subsection \<open>validateTweet and generateUniqueId\<close>

definition validateTweet :: "int \<Rightarrow> obj \<Rightarrow> bool" where
  "validateTweet now tweet =
     (let content = get_prop tweet ''content'';
          mediaId = get_prop tweet ''mediaId'';
          username = get_prop tweet ''username'';
          timestamp = get_prop tweet ''timestamp''
      in if \<not> truthy content \<and> \<not> truthy mediaId then False
         else if \<not> truthy username \<or> \<not> truthy timestamp then False
         else if \<not> is_string username \<or> (truthy content \<and> \<not> is_string content)
                 \<or> \<not> is_number timestamp then False
         else if truthy content \<and>
                 (case content of JStr c \<Rightarrow> length c = 0 \<or> length c > MAX_TWEET_LENGTH
                                | _ \<Rightarrow> False) then False
         else if truthy mediaId \<and>
                 (\<not> is_string mediaId \<or> \<not> is_string (get_prop tweet ''mediaThumbnail'')
                  \<or> \<not> is_string (get_prop tweet ''mediaType'')) then False
         else if list_ex (\<lambda>p. p \<notin> set VALID_TWEET_PROPS) (map fst tweet) then False
         else if (case timestamp of JNum n \<Rightarrow> n > now + 60000 | _ \<Rightarrow> False) then False
         else True)"

text \<open>
  The hash loop of \<open>generateUniqueId\<close>: \<open>hash << 5\<close> and \<open>hash & hash\<close> are 32-bit
  operations, and the sum between them is exact, so one round is a step in the 32-bit words.
  \<open>hash >>> 0\<close> reads the word unsigned.
\<close>

definition hash_step :: "32 word \<Rightarrow> char \<Rightarrow> 32 word" where
  "hash_step h c = (push_bit 5 h - h) + of_nat (of_char c)"

definition generateUniqueId :: "string \<Rightarrow> jsval \<Rightarrow> jsval \<Rightarrow> jsval \<Rightarrow> string" where
  "generateUniqueId peerId username content timestamp =
     (let dataToHash = js_to_string username @ ''-'' @ js_to_string timestamp @ ''-''
                       @ js_to_string content @ ''-'' @ peerId;
          hash = foldl hash_step 0 dataToHash;
          hashHex = nat_to_base 16 (unat hash)
      in js_to_string username @ ''-'' @ js_to_string timestamp @ ''-'' @ hashHex)"


subsection \<open>The two tables\<close>

text \<open>
  What an operation can throw. \<open>SendThrew\<close> is what \<open>conn.send\<close> throws on a dead
  session, and \<open>TypeError\<close> is the call of a method that the value found in a table
  does not have. \<open>PrototypeReplaced\<close> is not an error of the source: it marks
  the one assignment that this model does not follow, to the key \<open>__proto__\<close> at line 254,
  which replaces the prototype of the table instead of adding an entry.
\<close>

datatype tm_error =
    NoContentOrMedia
  | ContentTooLong
  | MediaFailed
  | RateLimited int
  | InvalidTweet
  | SendThrew
  | TypeError
  | PrototypeReplaced

text \<open>The facts the tables record: their own entries, read without the prototype.\<close>

definition is_recipient :: "tm_state \<Rightarrow> jsval \<Rightarrow> string \<Rightarrow> bool" where
  "is_recipient s tweetId peerId =
     (case tweetRecipients s (js_to_string tweetId) of None \<Rightarrow> False | Some ps \<Rightarrow> peerId \<in> set ps)"

definition is_queued :: "tm_state \<Rightarrow> string \<Rightarrow> jsval \<Rightarrow> bool" where
  "is_queued s peerId tweetId =
     (case unsentTweets s peerId of None \<Rightarrow> False | Some q \<Rightarrow> tweetId \<in> set q)"

text \<open>
  The accesses that the operations share, each as the source writes it. They throw before
  they change anything.

  \<open>not_confirmed\<close> is the test
  \<open>!this.tweetRecipients[id] || !this.tweetRecipients[id].includes(peerId)\<close>.
\<close>

definition not_confirmed :: "tm_state \<Rightarrow> jsval \<Rightarrow> string \<Rightarrow> tm_error + bool" where
  "not_confirmed s tweetId peerId =
     (case table_get (tweetRecipients s) (js_to_string tweetId) of
        Missing \<Rightarrow> Inr True
      | Own ps \<Rightarrow> Inr (peerId \<notin> set ps)
      | Inherited len \<Rightarrow> Inl TypeError)"

text \<open>
  \<open>if (!this.tweetRecipients[id]) this.tweetRecipients[id] = [];
  if (!this.tweetRecipients[id].includes(peerId)) this.tweetRecipients[id].push(peerId)\<close>.
\<close>

definition add_recipient :: "jsval \<Rightarrow> string \<Rightarrow> tm_state \<Rightarrow> tm_error + tm_state" where
  "add_recipient tweetId peerId s =
     (case table_get (tweetRecipients s) (js_to_string tweetId) of
        Missing \<Rightarrow> Inr (s\<lparr>tweetRecipients := (tweetRecipients s)(js_to_string tweetId \<mapsto> [peerId])\<rparr>)
      | Own ps \<Rightarrow>
          Inr (if peerId \<in> set ps then s
               else s\<lparr>tweetRecipients := (tweetRecipients s)(js_to_string tweetId \<mapsto> ps @ [peerId])\<rparr>)
      | Inherited len \<Rightarrow> Inl TypeError)"

text \<open>
  \<open>if (this.unsentTweets[peerId])
  this.unsentTweets[peerId] = this.unsentTweets[peerId].filter(id => id !== tweetId)\<close>.
\<close>

definition remove_unsent :: "string \<Rightarrow> jsval \<Rightarrow> tm_state \<Rightarrow> tm_error + tm_state" where
  "remove_unsent peerId tweetId s =
     (case table_get (unsentTweets s) peerId of
        Missing \<Rightarrow> Inr s
      | Own q \<Rightarrow> Inr (s\<lparr>unsentTweets := (unsentTweets s)(peerId \<mapsto> filter (\<lambda>i. i \<noteq> tweetId) q)\<rparr>)
      | Inherited len \<Rightarrow> Inl TypeError)"

text \<open>
  \<open>if (!this.unsentTweets[peerId]) this.unsentTweets[peerId] = [];
  if (!this.unsentTweets[peerId].includes(tweetId)) this.unsentTweets[peerId].push(tweetId)\<close>.
\<close>

definition add_unsent :: "string \<Rightarrow> jsval \<Rightarrow> tm_state \<Rightarrow> tm_error + tm_state" where
  "add_unsent peerId tweetId s =
     (case table_get (unsentTweets s) peerId of
        Missing \<Rightarrow> Inr (s\<lparr>unsentTweets := (unsentTweets s)(peerId \<mapsto> [tweetId])\<rparr>)
      | Own q \<Rightarrow>
          Inr (if tweetId \<in> set q then s
               else s\<lparr>unsentTweets := (unsentTweets s)(peerId \<mapsto> q @ [tweetId])\<rparr>)
      | Inherited len \<Rightarrow> Inl TypeError)"

text \<open>
  A \<open>forEach\<close> whose callback can throw: the exception ends the loop and leaves the loop
  with the changes made so far.
\<close>

fun for_each ::
  "('a \<Rightarrow> tm_state \<Rightarrow> tm_error option \<times> tm_state) \<Rightarrow> 'a list \<Rightarrow> tm_state
     \<Rightarrow> tm_error option \<times> tm_state" where
  "for_each f [] s = (None, s)"
| "for_each f (x # xs) s =
     (case f x s of
        (None, s1) \<Rightarrow> for_each f xs s1
      | (Some e, s1) \<Rightarrow> (Some e, s1))"

text \<open>A step that throws before it changes anything, as a callback of \<open>for_each\<close>.\<close>

definition attempt :: "tm_error + tm_state \<Rightarrow> tm_state \<Rightarrow> tm_error option \<times> tm_state" where
  "attempt r s = (case r of Inl e \<Rightarrow> (Some e, s) | Inr s1 \<Rightarrow> (None, s1))"


subsection \<open>addTweet, deleteTweet, deleteAllTweets\<close>

text \<open>
  The clean-up of one evicted message, lines 267 to 274 of \<open>addTweet\<close>: \<open>delete\<close> removes
  the table's own entry of the key (and does nothing where there is none), and the filter
  runs over the own keys of \<open>unsentTweets\<close>.
\<close>

definition forget_tweet :: "tm_state \<Rightarrow> obj \<Rightarrow> tm_state" where
  "forget_tweet s removedTweet =
     s\<lparr>tweetRecipients := (tweetRecipients s)(tweet_key removedTweet := None),
       unsentTweets := (\<lambda>peerId. map_option (filter (\<lambda>i. i \<noteq> tweet_id removedTweet))
                                             (unsentTweets s peerId))\<rparr>"

text \<open>
  \<open>addTweet\<close>. It throws \<open>Invalid tweet data\<close> before it changes anything, so the error
  carries no state. \<open>now\<close> is the clock \<open>validateTweet\<close> reads and \<open>peerId\<close> the local
  node id \<open>generateUniqueId\<close> reads. Its three parts are the choice of the id (line 217),
  the message object (lines 226 to 237), and the storing (lines 245 to 278). The stored
  object holds the id as it was handed in, and the search at line 220 compares with \<open>===\<close>.
\<close>

definition addTweet_id :: "string \<Rightarrow> jsval \<Rightarrow> jsval \<Rightarrow> jsval \<Rightarrow> jsval \<Rightarrow> jsval" where
  "addTweet_id peerId username content timestamp ident =
     (if truthy ident then ident
      else JStr (generateUniqueId peerId username content timestamp))"

definition media_props :: "jsval \<Rightarrow> jsval \<Rightarrow> jsval \<Rightarrow> obj" where
  "media_props mediaId mediaThumbnail mediaType =
     (if truthy mediaId
      then [(''mediaId'', mediaId), (''mediaThumbnail'', mediaThumbnail), (''mediaType'', mediaType)]
      else [])"

definition tweet_object ::
  "jsval \<Rightarrow> jsval \<Rightarrow> jsval \<Rightarrow> jsval \<Rightarrow> jsval \<Rightarrow> jsval \<Rightarrow> jsval \<Rightarrow> obj" where
  "tweet_object username content timestamp tweetId mediaId mediaThumbnail mediaType =
     [(''username'', username), (''content'', content), (''timestamp'', timestamp),
      (''id'', tweetId)] @ media_props mediaId mediaThumbnail mediaType"

definition store_tweet :: "string list option \<Rightarrow> jsval \<Rightarrow> obj \<Rightarrow> tm_state \<Rightarrow> tm_state" where
  "store_tweet recipients tweetId tweet s =
     (let s1 = s\<lparr>tweets := tweets s @ [tweet]\<rparr>;
          s2 = (case table_get (tweetRecipients s1) (js_to_string tweetId) of
                  Missing \<Rightarrow> s1\<lparr>tweetRecipients := (tweetRecipients s1)(js_to_string tweetId \<mapsto> [])\<rparr>
                | Own ps \<Rightarrow> s1
                | Inherited len \<Rightarrow> s1);
          s3 = (case recipients of
                  None \<Rightarrow> s2
                | Some rs \<Rightarrow> s2\<lparr>tweetRecipients := (tweetRecipients s2)(js_to_string tweetId \<mapsto> rs)\<rparr>);
          sorted_tweets = sortTweets (tweets s3);
          s4 = s3\<lparr>tweets := take MAX_TWEETS_STORAGE sorted_tweets\<rparr>;
          s5 = foldl forget_tweet s4 (drop MAX_TWEETS_STORAGE sorted_tweets)
      in saveTweets s5)"

definition addTweet ::
  "int \<Rightarrow> string \<Rightarrow> jsval \<Rightarrow> jsval \<Rightarrow> jsval \<Rightarrow> string list option \<Rightarrow> jsval
     \<Rightarrow> jsval \<Rightarrow> jsval \<Rightarrow> jsval \<Rightarrow> tm_state \<Rightarrow> tm_error + (jsval \<times> tm_state)" where
  "addTweet now peerId username content timestamp recipients ident mediaId mediaThumbnail mediaType s =
     (let tweetId = addTweet_id peerId username content timestamp ident
      in if list_ex (\<lambda>t. tweet_id t = tweetId) (tweets s) then Inr (tweetId, s)
         else
           let tweet = tweet_object username content timestamp tweetId
                                    mediaId mediaThumbnail mediaType
           in if \<not> validateTweet now tweet then Inl InvalidTweet
              else if recipients \<noteq> None \<and> js_to_string tweetId = ''__proto__''
              then Inl PrototypeReplaced
              else Inr (tweetId, store_tweet recipients tweetId tweet s))"

text \<open>
  \<open>deleteTweet\<close>, in its two parts. The first reads \<open>initialLength\<close>, looks for the
  message with \<open>===\<close> and, if that has an attachment, calls the attachment store and
  waits (the result says whether it waits). The second filters with \<open>!==\<close>, compares the
  length with \<open>initialLength\<close> and saves; it returns the result of the call. A failure of
  the attachment store is caught and changes nothing here.
\<close>

definition deleteTweet_start :: "jsval \<Rightarrow> tm_state \<Rightarrow> bool \<times> tm_state" where
  "deleteTweet_start tweetId s =
     (case find (\<lambda>tweet. tweet_id tweet = tweetId) (tweets s) of
        None \<Rightarrow> (False, s)
      | Some tweetToDelete \<Rightarrow>
          if truthy (get_prop tweetToDelete ''mediaId'')
          then (True, log_effects [DeleteMedia (get_prop tweetToDelete ''mediaId'')] s)
          else (False, s))"

definition deleteTweet_finish :: "jsval \<Rightarrow> nat \<Rightarrow> tm_state \<Rightarrow> bool \<times> tm_state" where
  "deleteTweet_finish tweetId initialLength s =
     (let s1 = s\<lparr>tweets := filter (\<lambda>tweet. tweet_id tweet \<noteq> tweetId) (tweets s)\<rparr>
      in if length (tweets s1) \<noteq> initialLength then (True, saveTweets s1) else (False, s1))"

text \<open>
  The call \<open>deleteTweet(tweetId)\<close> with nothing else running while it waits. When the
  message has no attachment, or no message has the id, the call does not wait and this is
  the call as it always runs.
\<close>

definition deleteTweet :: "jsval \<Rightarrow> tm_state \<Rightarrow> bool \<times> tm_state" where
  "deleteTweet tweetId s =
     deleteTweet_finish tweetId (length (tweets s)) (snd (deleteTweet_start tweetId s))"

text \<open>
  \<open>deleteAllTweets\<close> up to its first wait: with no attachment to delete it runs to its
  end, otherwise it calls the attachment store for the first one and waits. The result is
  \<open>deletedCount\<close>. \<open>purge_media\<close> is the rest of it, from the point where the attachment
  store answered: \<open>ok\<close> says that the answer was not an exception, which would end the loop.
\<close>

definition deleteAllTweets :: "tm_state \<Rightarrow> nat \<times> tm_state" where
  "deleteAllTweets s =
     (let mediaIds = map (\<lambda>tweet. get_prop tweet ''mediaId'')
                         (filter (\<lambda>tweet. truthy (get_prop tweet ''mediaId'')) (tweets s));
          deletedCount = length (tweets s);
          s1 = s\<lparr>tweets := [], tweetRecipients := Map.empty, unsentTweets := Map.empty\<rparr>
      in (deletedCount,
          case mediaIds of
            [] \<Rightarrow> saveMessageDistributionState (saveTweets s1)
          | mediaId # rest \<Rightarrow> suspend (ThenPurgeMedia rest) (log_effects [DeleteMedia mediaId] s1)))"

definition purge_media :: "bool \<Rightarrow> jsval list \<Rightarrow> tm_state \<Rightarrow> tm_state" where
  "purge_media ok mediaIds s =
     (case mediaIds of
        [] \<Rightarrow> saveMessageDistributionState (saveTweets s)
      | mediaId # rest \<Rightarrow>
          if ok then suspend (ThenPurgeMedia rest) (log_effects [DeleteMedia mediaId] s)
          else saveMessageDistributionState (saveTweets s))"

text \<open>What waits, resumed: the rest of the method that called \<open>await\<close>.\<close>

fun resume :: "bool \<Rightarrow> deferred \<Rightarrow> tm_state \<Rightarrow> tm_state" where
  "resume ok ThenSaveDistribution s = saveMessageDistributionState s"
| "resume ok ThenSaveUnsent s = log_effects [Save UNSENT_TWEETS] s"
| "resume ok (ThenFinishDelete tweetId initialLength) s = snd (deleteTweet_finish tweetId initialLength s)"
| "resume ok (ThenPurgeMedia mediaIds) s = purge_media ok mediaIds s"

subsection \<open>broadcastTweet and createTweet\<close>

text \<open>
  One round of the \<open>forEach\<close> over the connections in \<open>broadcastTweet\<close>. The \<open>try\<close>
  block is the send and the marking (lines 415 to 425); whatever it throws, the \<open>send\<close>
  of a dead session or a \<open>TypeError\<close> of the marking, lands in the \<open>catch\<close> block
  (lines 430 to 435), which keeps the changes made so far and can throw itself.
\<close>

definition broadcast_mark :: "jsval \<Rightarrow> conn \<Rightarrow> tm_state \<Rightarrow> tm_error option \<times> tm_state" where
  "broadcast_mark tweetId c s =
     (case table_get (tweetRecipients s) (js_to_string tweetId) of
        Missing \<Rightarrow> (None, s)
      | Inherited len \<Rightarrow> (Some TypeError, s)
      | Own ps \<Rightarrow>
          if peer c \<in> set ps then (None, s)
          else attempt (remove_unsent (peer c) tweetId
                          (s\<lparr>tweetRecipients := (tweetRecipients s)(js_to_string tweetId \<mapsto> ps @ [peer c])\<rparr>))
                       (s\<lparr>tweetRecipients := (tweetRecipients s)(js_to_string tweetId \<mapsto> ps @ [peer c])\<rparr>))"

definition broadcast_one :: "jsval \<Rightarrow> obj \<Rightarrow> conn \<Rightarrow> tm_state \<Rightarrow> tm_error option \<times> tm_state" where
  "broadcast_one tweetId tweetData c s =
     (let tried = (if sendable c
                   then broadcast_mark tweetId c (log_effects [Sent (peer c) (Tweet tweetData)] s)
                   else (Some SendThrew, log_effects [SendFailed (peer c) (Tweet tweetData)] s))
      in case tried of
           (None, s1) \<Rightarrow> (None, s1)
         | (Some e, s1) \<Rightarrow> attempt (add_unsent (peer c) tweetId s1) s1)"

definition broadcastTweet ::
  "jsval \<Rightarrow> jsval \<Rightarrow> jsval \<Rightarrow> jsval \<Rightarrow> jsval \<Rightarrow> jsval \<Rightarrow> jsval \<Rightarrow> conn list
     \<Rightarrow> tm_state \<Rightarrow> tm_error option \<times> tm_state" where
  "broadcastTweet username content timestamp tweetId mediaId mediaThumbnail mediaType connections s =
     (let tweetData = (''type'', JStr ''tweet'')
                      # tweet_object username content timestamp tweetId
                                     mediaId mediaThumbnail mediaType
      in case for_each (broadcast_one tweetId tweetData) connections s of
           (None, s1) \<Rightarrow> (None, saveMessageDistributionState s1)
         | (Some e, s1) \<Rightarrow> (Some e, s1))"

text \<open>
  What \<open>mediaManager.processAndStoreImage\<close> made of the optional file argument: no file was
  given, the processing threw, or it returned the attachment's id, thumbnail and type.
\<close>

datatype media_result = NoMediaFile | MediaError | MediaData jsval jsval jsval

text \<open>
  The variables \<open>mediaId\<close>, \<open>mediaThumbnail\<close> and \<open>mediaType\<close> of \<open>createTweet\<close>: null
  unless a file was processed.
\<close>

fun media_fields :: "media_result \<Rightarrow> jsval \<times> jsval \<times> jsval" where
  "media_fields (MediaData mediaId mediaThumbnail mediaType) = (mediaId, mediaThumbnail, mediaType)"
| "media_fields NoMediaFile = (JNull, JNull, JNull)"
| "media_fields MediaError = (JNull, JNull, JNull)"

text \<open>
  \<open>createTweet\<close>. \<open>username\<close> is \<open>userManager.getUserInfo().username\<close>, \<open>peerId\<close> is
  \<open>userManager.peerId\<close>, \<open>connections\<close> is the session table of the connection manager
  (\<open>getConnectedPeerIds\<close> and \<open>getAllConnections\<close> both read it), and \<open>now\<close> is the clock.
  With a file the method waits for the attachment store before it reads or changes any
  field; it is taken from where it resumes, the two checks of the content before the wait
  being checks of the argument alone. An object handed in as content is taken to have no
  \<open>length\<close> above the maximum. An error after the rate limiter ran keeps the limiter's
  update, and an error out of the broadcast keeps what was stored and sent, so the state is
  returned beside the result.
\<close>

definition createTweet ::
  "int \<Rightarrow> string \<Rightarrow> jsval \<Rightarrow> jsval \<Rightarrow> media_result \<Rightarrow> conn list \<Rightarrow> tm_state
     \<Rightarrow> (tm_error + string) \<times> tm_state" where
  "createTweet now peerId username content mediaFile connections s =
     (if \<not> truthy content \<and> mediaFile = NoMediaFile then (Inl NoContentOrMedia, s)
      else if truthy content \<and> (case content of JStr c \<Rightarrow> length c > MAX_TWEET_LENGTH | _ \<Rightarrow> False)
      then (Inl ContentTooLong, s)
      else if mediaFile = MediaError then (Inl MediaFailed, s)
      else
        let (mediaId, mediaThumbnail, mediaType) = media_fields mediaFile;
            (allowed, lim) = isAllowed now ''message'' peerId MESSAGE_MAX_COUNT
                                       MESSAGE_TIME_WINDOW_MS (rateLimiter s);
            s1 = s\<lparr>rateLimiter := lim\<rparr>
        in if \<not> allowed
           then (Inl (RateLimited (- ((- getTimeUntilAllowed now ''message'' peerId lim) div 1000))), s1)
           else
             let timestamp = JNum now;
                 connectedPeerIds = map peer connections;
                 tweetId = generateUniqueId peerId username content timestamp
             in (case addTweet now peerId username content timestamp (Some connectedPeerIds)
                               (JStr tweetId) mediaId mediaThumbnail mediaType s1 of
                   Inl e \<Rightarrow> (Inl e, s1)
                 | Inr (i, s2) \<Rightarrow>
                     (case broadcastTweet username content timestamp (JStr tweetId) mediaId
                                          mediaThumbnail mediaType connections s2 of
                        (None, s3) \<Rightarrow> (Inr tweetId, s3)
                      | (Some e, s3) \<Rightarrow> (Inl e, s3))))"

subsection \<open>Catch-up: the connection callback and sendSelectiveTweets\<close>

text \<open>
  The callback registered with \<open>onPeerConnected\<close>, up to the timer it starts. Nothing
  catches what it throws: then the timer is not started.
\<close>

definition queue_missing :: "string \<Rightarrow> obj \<Rightarrow> tm_state \<Rightarrow> tm_error option \<times> tm_state" where
  "queue_missing peerId tweet s =
     (case not_confirmed s (tweet_id tweet) peerId of
        Inl e \<Rightarrow> (Some e, s)
      | Inr False \<Rightarrow> (None, s)
      | Inr True \<Rightarrow> attempt (add_unsent peerId (tweet_id tweet) s) s)"

definition peer_connected :: "conn \<Rightarrow> tm_state \<Rightarrow> tm_error option \<times> tm_state" where
  "peer_connected c s =
     (let s1 = (case table_get (unsentTweets s) (peer c) of
                  Missing \<Rightarrow> s\<lparr>unsentTweets := (unsentTweets s)(peer c \<mapsto> [])\<rparr>
                | Own q \<Rightarrow> s
                | Inherited len \<Rightarrow> s)
      in for_each (queue_missing (peer c)) (tweets s1) s1)"

text \<open>
  The ids \<open>unsentTweetIds\<close> that \<open>sendSelectiveTweets\<close> collects, lines 521 to 535. The
  spread at line 525 runs when what the table finds has a \<open>length\<close> above zero, and throws
  when that is a function.
\<close>

definition queued_ids :: "string \<Rightarrow> tm_state \<Rightarrow> tm_error + jsval list" where
  "queued_ids peerId s =
     (case table_get (unsentTweets s) peerId of
        Missing \<Rightarrow> Inr []
      | Own q \<Rightarrow> Inr q
      | Inherited None \<Rightarrow> Inr []
      | Inherited (Some len) \<Rightarrow> if len > 0 then Inl TypeError else Inr [])"

fun collect_missing :: "string \<Rightarrow> tm_state \<Rightarrow> obj list \<Rightarrow> jsval list \<Rightarrow> tm_error + jsval list" where
  "collect_missing peerId s [] ids = Inr ids"
| "collect_missing peerId s (tweet # rest) ids =
     (case not_confirmed s (tweet_id tweet) peerId of
        Inl e \<Rightarrow> Inl e
      | Inr missing \<Rightarrow>
          collect_missing peerId s rest
            (if missing \<and> tweet_id tweet \<notin> set ids then ids @ [tweet_id tweet] else ids))"

definition collect_unsent :: "string \<Rightarrow> tm_state \<Rightarrow> tm_error + jsval list" where
  "collect_unsent peerId s =
     (case queued_ids peerId s of
        Inl e \<Rightarrow> Inl e
      | Inr ids \<Rightarrow> collect_missing peerId s (tweets s) ids)"

text \<open>The loop that cuts \<open>tweetsToSend\<close> into slices of \<open>BATCH_SIZE\<close>.\<close>

function batches_of :: "obj list \<Rightarrow> obj list list" where
  "batches_of ts = (if ts = [] then [] else take BATCH_SIZE ts # batches_of (drop BATCH_SIZE ts))"
  by pat_completeness auto
termination
  by (relation "measure length") (auto simp: BATCH_SIZE_def)

declare batches_of.simps [simp del]

text \<open>
  \<open>sendSelectiveTweets\<close> sends nothing itself: it hands each batch to a timer. Its result
  here is the list of the batches it schedules, in order, or what it throws before it
  schedules any.
\<close>

definition sendSelectiveTweets :: "conn \<Rightarrow> tm_state \<Rightarrow> tm_error + obj list list" where
  "sendSelectiveTweets c s =
     (case collect_unsent (peer c) s of
        Inl e \<Rightarrow> Inl e
      | Inr unsentTweetIds \<Rightarrow>
          if unsentTweetIds = [] then Inr []
          else Inr (batches_of (filter (\<lambda>tweet. tweet_id tweet \<in> set unsentTweetIds) (tweets s))))"

text \<open>
  The timer callback of one batch, on the state it finds when it runs. The \<open>try\<close> block
  is the send and the marking of the batch; whatever it throws lands in the \<open>catch\<close>
  block, which queues the batch and can throw itself, out of the callback.
\<close>

definition mark_sent :: "string \<Rightarrow> obj \<Rightarrow> tm_state \<Rightarrow> tm_error option \<times> tm_state" where
  "mark_sent peerId tweet s =
     (case add_recipient (tweet_id tweet) peerId s of
        Inl e \<Rightarrow> (Some e, s)
      | Inr s1 \<Rightarrow> attempt (remove_unsent peerId (tweet_id tweet) s1) s1)"

definition keep_unsent :: "string \<Rightarrow> obj \<Rightarrow> tm_state \<Rightarrow> tm_error option \<times> tm_state" where
  "keep_unsent peerId tweet s = attempt (add_unsent peerId (tweet_id tweet) s) s"

definition send_batch :: "conn \<Rightarrow> obj list \<Rightarrow> tm_state \<Rightarrow> tm_error option \<times> tm_state" where
  "send_batch c batch s =
     (let tried = (if sendable c
                   then for_each (mark_sent (peer c)) batch
                          (log_effects [Sent (peer c) (AllTweets batch)] s)
                   else (Some SendThrew, log_effects [SendFailed (peer c) (AllTweets batch)] s))
      in case tried of
           (None, s1) \<Rightarrow> (None, saveMessageDistributionState s1)
         | (Some e, s1) \<Rightarrow>
             (case for_each (keep_unsent (peer c)) batch s1 of
                (None, s2) \<Rightarrow> (None, saveMessageDistributionState s2)
              | (Some e2, s2) \<Rightarrow> (Some e2, s2)))"


subsection \<open>Handlers of inbound messages\<close>

text \<open>
  \<open>handleTweetMessage\<close>. \<open>data\<close> is the message object as received and \<open>c\<close> the session
  it came on. Whatever the body throws (\<open>addTweet\<close> on an invalid message, the marking on
  an inherited member, \<open>conn.send\<close> on a dead session) is caught and logged, and the
  changes made before the throw stay.
\<close>

definition inbound_id :: "string \<Rightarrow> obj \<Rightarrow> jsval" where
  "inbound_id peerId data =
     (if truthy (get_prop data ''id'') then get_prop data ''id''
      else JStr (generateUniqueId peerId (get_prop data ''username'') (get_prop data ''content'')
                                  (get_prop data ''timestamp'')))"

definition tweetData_of :: "obj \<Rightarrow> obj" where
  "tweetData_of data = [(''username'', get_prop data ''username''),
                        (''content'', get_prop data ''content''),
                        (''timestamp'', get_prop data ''timestamp''),
                        (''id'', get_prop data ''id'')]"

definition handleTweetMessage :: "int \<Rightarrow> string \<Rightarrow> obj \<Rightarrow> conn \<Rightarrow> tm_state \<Rightarrow> tm_state" where
  "handleTweetMessage now peerId data c s =
     (if \<not> validateTweet now (tweetData_of data) then s
      else
        let tweetId = inbound_id peerId data
        in (case addTweet now peerId (get_prop data ''username'') (get_prop data ''content'')
                          (get_prop data ''timestamp'') None tweetId JNull JNull JNull s of
              Inl e \<Rightarrow> s
            | Inr (i, s1) \<Rightarrow>
                (case add_recipient tweetId (peer c) s1 of
                   Inl e \<Rightarrow> s1
                 | Inr s2 \<Rightarrow>
                     if sendable c
                     then saveMessageDistributionState
                            (log_effects [Sent (peer c) (TweetAck tweetId)] s2)
                     else log_effects [SendFailed (peer c) (TweetAck tweetId)] s2)))"

text \<open>
  \<open>handleTweetAckMessage\<close>; \<open>ident\<close> is \<open>data.id\<close>. The handler has no \<open>try\<close>: what it
  throws leaves it, with the changes made so far.
\<close>

definition handleTweetAckMessage :: "jsval \<Rightarrow> conn \<Rightarrow> tm_state \<Rightarrow> tm_error option \<times> tm_state" where
  "handleTweetAckMessage ident c s =
     (if \<not> truthy ident then (None, s)
      else
        case table_get (tweetRecipients s) (js_to_string ident) of
          Missing \<Rightarrow> (None, s)
        | Inherited len \<Rightarrow> (Some TypeError, s)
        | Own ps \<Rightarrow>
            if peer c \<in> set ps then (None, s)
            else
              (case remove_unsent (peer c) ident
                      (s\<lparr>tweetRecipients := (tweetRecipients s)(js_to_string ident \<mapsto> ps @ [peer c])\<rparr>) of
                 Inl e \<Rightarrow> (Some e, s\<lparr>tweetRecipients := (tweetRecipients s)(js_to_string ident \<mapsto> ps @ [peer c])\<rparr>)
               | Inr s1 \<Rightarrow> (None, saveMessageDistributionState s1)))"

text \<open>
  \<open>handleAllTweetsMessage\<close> on the array \<open>data.tweets\<close> (a message whose \<open>tweets\<close> is not
  an array is logged and dropped before the loop). One round of its \<open>forEach\<close> carries the
  state and \<open>validTweetIds\<close>; an entry that \<open>addTweet\<close> or the marking throws on is caught
  and skipped, with the changes made before the throw.
\<close>

definition receive_one ::
  "int \<Rightarrow> string \<Rightarrow> conn \<Rightarrow> tm_state \<times> jsval list \<Rightarrow> obj \<Rightarrow> tm_state \<times> jsval list" where
  "receive_one now peerId c acc tweet =
     (let (s, validTweetIds) = acc
      in if \<not> validateTweet now tweet then acc
         else
           let tweetId = inbound_id peerId tweet
           in (case addTweet now peerId (get_prop tweet ''username'') (get_prop tweet ''content'')
                             (get_prop tweet ''timestamp'') None tweetId JNull JNull JNull s of
                 Inl e \<Rightarrow> acc
               | Inr (i, s1) \<Rightarrow>
                   (case add_recipient tweetId (peer c) s1 of
                      Inl e \<Rightarrow> (s1, validTweetIds)
                    | Inr s2 \<Rightarrow> (s2, validTweetIds @ [tweetId]))))"

definition handleAllTweetsMessage ::
  "int \<Rightarrow> string \<Rightarrow> obj list \<Rightarrow> conn \<Rightarrow> tm_state \<Rightarrow> tm_state" where
  "handleAllTweetsMessage now peerId tweets_in c s =
     (let (s1, validTweetIds) = foldl (receive_one now peerId c) (s, []) tweets_in
      in if validTweetIds = [] then saveMessageDistributionState s1
         else if sendable c
         then saveMessageDistributionState
                (log_effects [Sent (peer c) (BulkTweetAck validTweetIds)] s1)
         else log_effects [SendFailed (peer c) (BulkTweetAck validTweetIds)] s1)"

text \<open>
  \<open>handleBulkTweetAckMessage\<close> on the array \<open>data.ids\<close>. The handler has no \<open>try\<close>:
  an id that throws ends the loop, and the ids after it are not looked at.
\<close>

definition bulk_ack_one :: "conn \<Rightarrow> jsval \<Rightarrow> tm_state \<Rightarrow> tm_error option \<times> tm_state" where
  "bulk_ack_one c tweetId s =
     (case table_get (tweetRecipients s) (js_to_string tweetId) of
        Inherited len \<Rightarrow> (Some TypeError, s)
      | Missing \<Rightarrow> attempt (remove_unsent (peer c) tweetId s) s
      | Own ps \<Rightarrow>
          if peer c \<in> set ps then attempt (remove_unsent (peer c) tweetId s) s
          else attempt (remove_unsent (peer c) tweetId
                          (s\<lparr>tweetRecipients := (tweetRecipients s)(js_to_string tweetId \<mapsto> ps @ [peer c])\<rparr>))
                       (s\<lparr>tweetRecipients := (tweetRecipients s)(js_to_string tweetId \<mapsto> ps @ [peer c])\<rparr>))"

definition handleBulkTweetAckMessage ::
  "jsval list \<Rightarrow> conn \<Rightarrow> tm_state \<Rightarrow> tm_error option \<times> tm_state" where
  "handleBulkTweetAckMessage ids c s =
     (case for_each (bulk_ack_one c) ids s of
        (None, s1) \<Rightarrow> (None, saveMessageDistributionState s1)
      | (Some e, s1) \<Rightarrow> (Some e, s1))"

subsection \<open>Runs of the distribution engine\<close>

text \<open>
  The calls and events that reach the engine, each with what it reads from outside: the
  clock, the user's name, the sessions and whether their \<open>send\<close> works. The local node id
  is fixed for a run. \<open>DeleteTweet\<close> and \<open>DeleteAllTweets\<close> run a call up to its first
  wait, and \<open>Resume k ok\<close> runs what waits at place \<open>k\<close>, in any order the event loop
  may take; \<open>SendBatch\<close> is a timer of \<open>sendSelectiveTweets\<close>. What an event throws goes
  to the console, and the state stays as the throw left it.
\<close>

datatype event =
    CreateTweet int jsval jsval media_result "conn list"
  | DeleteTweet jsval
  | DeleteAllTweets
  | Resume nat bool
  | PeerConnected conn
  | SendBatch conn "obj list"
  | RecvTweet int obj conn
  | RecvTweetAck jsval conn
  | RecvAllTweets int "obj list" conn
  | RecvBulkTweetAck "jsval list" conn

definition delete_tweet_event :: "jsval \<Rightarrow> tm_state \<Rightarrow> tm_state" where
  "delete_tweet_event tweetId s =
     (case deleteTweet_start tweetId s of
        (True, s1) \<Rightarrow> suspend (ThenFinishDelete tweetId (length (tweets s))) s1
      | (False, s1) \<Rightarrow> snd (deleteTweet_finish tweetId (length (tweets s)) s1))"

definition resume_event :: "nat \<Rightarrow> bool \<Rightarrow> tm_state \<Rightarrow> tm_state" where
  "resume_event k ok s =
     (if k < length (suspended s)
      then resume ok (suspended s ! k)
             (s\<lparr>suspended := take k (suspended s) @ drop (Suc k) (suspended s)\<rparr>)
      else s)"

fun step :: "string \<Rightarrow> tm_state \<Rightarrow> event \<Rightarrow> tm_state" where
  "step peerId s (CreateTweet now username content mediaFile connections) =
     snd (createTweet now peerId username content mediaFile connections s)"
| "step peerId s (DeleteTweet tweetId) = delete_tweet_event tweetId s"
| "step peerId s DeleteAllTweets = snd (deleteAllTweets s)"
| "step peerId s (Resume k ok) = resume_event k ok s"
| "step peerId s (PeerConnected c) = snd (peer_connected c s)"
| "step peerId s (SendBatch c batch) = snd (send_batch c batch s)"
| "step peerId s (RecvTweet now data c) = handleTweetMessage now peerId data c s"
| "step peerId s (RecvTweetAck ident c) = snd (handleTweetAckMessage ident c s)"
| "step peerId s (RecvAllTweets now tweets_in c) = handleAllTweetsMessage now peerId tweets_in c s"
| "step peerId s (RecvBulkTweetAck ids c) = snd (handleBulkTweetAckMessage ids c s)"

definition run :: "string \<Rightarrow> event list \<Rightarrow> tm_state" where
  "run peerId evs = foldl (step peerId) init_state evs"

section \<open>Connection manager (the PeerManager class, src/unnamed/part_000)\<close>

text \<open>What the connection manager does to a session or sends on it.\<close>

datatype pm_message = Ping | Handshake

datatype pm_effect =
    PSent nat pm_message
  | PSendFailed nat pm_message
  | Closed nat

text \<open>
  The fields of \<open>PeerManager\<close> that the session table and the quality indicator depend
  on. \<open>peer_present\<close> says that \<open>this.peer\<close> is set and \<open>peer_disconnected\<close> is its
  \<open>disconnected\<close> flag; \<open>connections\<close> is the session table; the three per-peer tables
  are dictionaries in insertion order; \<open>connectLimiter\<close> is the field \<open>rateLimiter\<close> of
  this class. Quality and status values are the strings of the source. Status messages,
  the saving of the peer list and the callbacks of other components are left out.
\<close>

record pm_state =
  peer_present :: bool
  peer_disconnected :: bool
  connections :: "conn list"
  handshakeCompleted :: "string set"
  peerStatus :: "(string \<times> string) list"
  lastSeen :: "(string \<times> int) list"
  peerConnectionQuality :: "(string \<times> string) list"
  connectionQuality :: string
  connectLimiter :: limits
  pm_effects :: "pm_effect list"

definition CONNECT_MAX_ATTEMPTS :: int where "CONNECT_MAX_ATTEMPTS = 5"
definition CONNECT_TIME_WINDOW_MS :: int where "CONNECT_TIME_WINDOW_MS = 60000"

definition pm_log :: "pm_effect list \<Rightarrow> pm_state \<Rightarrow> pm_state" where
  "pm_log es s = s\<lparr>pm_effects := pm_effects s @ es\<rparr>"

text \<open>
  \<open>updateConnectionQualityIndicator\<close>: the counts are taken over all the values of
  \<open>peerConnectionQuality\<close>, and the two majorities are measured against half the number
  of sessions, rounded down.
\<close>

definition count_quality :: "string \<Rightarrow> pm_state \<Rightarrow> nat" where
  "count_quality q s = length (filter (\<lambda>v. v = q) (map snd (peerConnectionQuality s)))"

definition aggregate_quality :: "pm_state \<Rightarrow> string" where
  "aggregate_quality s =
     (if \<not> peer_present s \<or> peer_disconnected s then ''offline''
      else if length (connections s) = 0 then ''unknown''
      else if count_quality ''error'' s > 0 then ''error''
      else if count_quality ''poor'' s > length (connections s) div 2 then ''poor''
      else if count_quality ''medium'' s > length (connections s) div 2 then ''medium''
      else if count_quality ''good'' s > 0 then ''good''
      else ''unknown'')"

definition updateConnectionQualityIndicator :: "pm_state \<Rightarrow> pm_state" where
  "updateConnectionQualityIndicator s = s\<lparr>connectionQuality := aggregate_quality s\<rparr>"

text \<open>
  The quality recorded for a session is the entry of its peer, and \<open>sessions_with q\<close>
  counts the sessions whose recorded quality is \<open>q\<close>. The table holds one value per
  session when its keys are the peers of the sessions, each once.
\<close>

definition session_quality :: "pm_state \<Rightarrow> conn \<Rightarrow> string option" where
  "session_quality s c = map_of (peerConnectionQuality s) (peer c)"

definition sessions_with :: "string \<Rightarrow> pm_state \<Rightarrow> nat" where
  "sessions_with q s = length (filter (\<lambda>c. session_quality s c = Some q) (connections s))"

definition one_value_per_session :: "pm_state \<Rightarrow> bool" where
  "one_value_per_session s =
     (distinct (map fst (peerConnectionQuality s)) \<and> distinct (map peer (connections s))
      \<and> set (map fst (peerConnectionQuality s)) = set (map peer (connections s)))"

text \<open>\<open>splice(existingConnIndex, 1)\<close> at the index \<open>findIndex\<close> returned.\<close>

fun remove_first :: "('a \<Rightarrow> bool) \<Rightarrow> 'a list \<Rightarrow> 'a list" where
  "remove_first P [] = []"
| "remove_first P (x # xs) = (if P x then xs else x # remove_first P xs)"

text \<open>
  \<open>handleConnection\<close> up to the registration of the listeners. The result says whether the
  listeners of the new connection were registered (\<open>True\<close>) or the connection was closed
  and dropped (\<open>False\<close>). The probe of the existing session is its \<open>send\<close>.
\<close>

definition handleConnection :: "conn \<Rightarrow> pm_state \<Rightarrow> bool \<times> pm_state" where
  "handleConnection c s =
     (case find (\<lambda>existingConn. peer existingConn = peer c) (connections s) of
        None \<Rightarrow> (True, s)
      | Some existingConn \<Rightarrow>
          if sendable existingConn
          then (False, pm_log [PSent (cid existingConn) Ping, Closed (cid c)] s)
          else (True,
                pm_log [PSendFailed (cid existingConn) Ping, Closed (cid existingConn)]
                  (s\<lparr>connections := remove_first (\<lambda>e. peer e = peer c) (connections s),
                     handshakeCompleted := handshakeCompleted s - {peer c}\<rparr>)))"

text \<open>The listeners \<open>handleConnection\<close> registers: \<open>open\<close>, \<open>close\<close> and \<open>error\<close>.\<close>

definition conn_open :: "int \<Rightarrow> conn \<Rightarrow> pm_state \<Rightarrow> pm_state" where
  "conn_open now c s =
     (let s1 = s\<lparr>connections := connections s @ [c],
                 peerStatus := AList.update (peer c) ''online'' (peerStatus s),
                 lastSeen := AList.update (peer c) now (lastSeen s),
                 peerConnectionQuality := AList.update (peer c) ''good'' (peerConnectionQuality s)\<rparr>
      in if peer c \<notin> handshakeCompleted s1
         then pm_log [if sendable c then PSent (cid c) Handshake else PSendFailed (cid c) Handshake] s1
         else s1)"

definition conn_close :: "int \<Rightarrow> conn \<Rightarrow> pm_state \<Rightarrow> pm_state" where
  "conn_close now c s =
     s\<lparr>connections := filter (\<lambda>e. peer e \<noteq> peer c) (connections s),
       peerStatus := AList.update (peer c) ''offline'' (peerStatus s),
       lastSeen := AList.update (peer c) now (lastSeen s),
       handshakeCompleted := handshakeCompleted s - {peer c}\<rparr>"

definition conn_error :: "int \<Rightarrow> conn \<Rightarrow> pm_state \<Rightarrow> pm_state" where
  "conn_error now c s =
     s\<lparr>peerStatus := AList.update (peer c) ''error'' (peerStatus s),
       lastSeen := AList.update (peer c) now (lastSeen s),
       connections := filter (\<lambda>e. peer e \<noteq> peer c) (connections s),
       handshakeCompleted := handshakeCompleted s - {peer c}\<rparr>"

datatype pm_error = PeerIdRequired | NoActivePeer | ConnectToSelf | ConnectRateLimited int

text \<open>
  \<open>connectToPeer\<close>. \<open>localId\<close> is \<open>userManager.peerId\<close>, and \<open>fresh\<close> is the connection
  object \<open>this.peer.connect(peerId)\<close> returns when the call gets that far.
\<close>

definition connectToPeer ::
  "int \<Rightarrow> string \<Rightarrow> string \<Rightarrow> conn \<Rightarrow> pm_state \<Rightarrow> (pm_error + conn) \<times> pm_state" where
  "connectToPeer now localId peerId fresh s =
     (if peerId = [] then (Inl PeerIdRequired, s)
      else if \<not> peer_present s then (Inl NoActivePeer, s)
      else if peerId = localId then (Inl ConnectToSelf, s)
      else
        let (allowed, lim) = isAllowed now ''connect'' localId CONNECT_MAX_ATTEMPTS
                                       CONNECT_TIME_WINDOW_MS (connectLimiter s);
            s1 = s\<lparr>connectLimiter := lim\<rparr>
        in if \<not> allowed
           then (Inl (ConnectRateLimited (- ((- getTimeUntilAllowed now ''connect'' localId lim) div 1000))), s1)
           else
             (case find (\<lambda>e. peer e = peerId) (connections s1) of
                Some existingConn \<Rightarrow>
                  if sendable existingConn
                  then (Inr existingConn, pm_log [PSent (cid existingConn) Ping] s1)
                  else
                    let s2 = pm_log [PSendFailed (cid existingConn) Ping, Closed (cid existingConn)]
                               (s1\<lparr>connections := remove_first (\<lambda>e. peer e = peerId) (connections s1),
                                   handshakeCompleted := handshakeCompleted s1 - {peerId}\<rparr>)
                    in (Inr fresh, snd (handleConnection fresh s2))
              | None \<Rightarrow> (Inr fresh, snd (handleConnection fresh s1))))"

definition pm_init :: pm_state where
  "pm_init = \<lparr>peer_present = True, peer_disconnected = False, connections = [],
              handshakeCompleted = {}, peerStatus = [], lastSeen = [],
              peerConnectionQuality = [], connectionQuality = ''unknown'',
              connectLimiter = Map.empty, pm_effects = []\<rparr>"


section \<open>Sample data\<close>

text \<open>Sessions, messages and runs that the closed theorems below evaluate.\<close>

definition bob :: conn where
  "bob = \<lparr>cid = 1, peer = ''bob'', sendable = True\<rparr>"

definition carol :: conn where
  "carol = \<lparr>cid = 2, peer = ''carol'', sendable = True\<rparr>"

definition bob_dead :: conn where
  "bob_dead = \<lparr>cid = 1, peer = ''bob'', sendable = False\<rparr>"

definition bob_again :: conn where
  "bob_again = \<lparr>cid = 3, peer = ''bob'', sendable = True\<rparr>"

text \<open>A message as \<open>broadcastTweet\<close> of another node puts it on the wire.\<close>

definition msg_hi :: obj where
  "msg_hi = [(''type'', JStr ''tweet''), (''username'', JStr ''alice''), (''content'', JStr ''hi''),
             (''timestamp'', JNum 1000), (''id'', JStr ''m1'')]"

text \<open>The same message with one more field, of a name no schema knows.\<close>

definition msg_injected :: obj where
  "msg_injected = msg_hi @ [(''injected'', JBool True)]"

text \<open>A message whose content is the empty string.\<close>

definition msg_blank :: obj where
  "msg_blank = [(''type'', JStr ''tweet''), (''username'', JStr ''alice''), (''content'', JStr []),
                (''timestamp'', JNum 1000), (''id'', JStr ''m2'')]"

text \<open>Two messages whose ids are the number 7 and the string \<open>7\<close>.\<close>

definition msg_seven :: obj where
  "msg_seven = [(''type'', JStr ''tweet''), (''username'', JStr ''alice''), (''content'', JStr ''hi''),
                (''timestamp'', JNum 1000), (''id'', JNum 7)]"

definition msg_seven_text :: obj where
  "msg_seven_text = [(''type'', JStr ''tweet''), (''username'', JStr ''alice''), (''content'', JStr ''hi''),
                     (''timestamp'', JNum 1000), (''id'', JStr ''7'')]"

text \<open>A message whose id is the name of a member of \<open>Object.prototype\<close>.\<close>

definition msg_constructor :: obj where
  "msg_constructor = [(''type'', JStr ''tweet''), (''username'', JStr ''alice''), (''content'', JStr ''hi''),
                      (''timestamp'', JNum 1000), (''id'', JStr ''constructor'')]"

text \<open>A message with an attachment and no content.\<close>

definition msg_picture :: obj where
  "msg_picture = [(''type'', JStr ''tweet''), (''username'', JStr ''alice''), (''content'', JStr []),
                  (''timestamp'', JNum 1000), (''id'', JStr ''m3''), (''mediaId'', JStr ''media_1''),
                  (''mediaThumbnail'', JStr ''data:''), (''mediaType'', JStr ''image'')]"

text \<open>The node \<open>me\<close> received \<open>msg_hi\<close> from bob, then carol connected.\<close>

definition received_hi :: tm_state where
  "received_hi = run ''me'' [RecvTweet 2000 msg_hi bob, PeerConnected carol]"

text \<open>The user \<open>me\<close> posted \<open>yo\<close> at time 2000 with no session open.\<close>

definition posted_alone :: tm_state where
  "posted_alone = snd (createTweet 2000 ''me'' (JStr ''me'') (JStr ''yo'') NoMediaFile [] init_state)"

text \<open>A connection manager with sessions to bob and carol, both measured \<open>poor\<close>.\<close>

definition two_poor_sessions :: pm_state where
  "two_poor_sessions =
     pm_init\<lparr>connections := [bob, carol],
             peerConnectionQuality := [(''bob'', ''poor''), (''carol'', ''poor'')]\<rparr>"

text \<open>
  A connection manager with one session, to bob and measured \<open>good\<close>, whose table still
  holds the values of two peers without a session.
\<close>

definition one_good_two_stale :: pm_state where
  "one_good_two_stale =
     pm_init\<lparr>connections := [bob],
             peerConnectionQuality := [(''bob'', ''good''), (''carol'', ''poor''), (''dave'', ''poor'')]\<rparr>"

section \<open>Properties of the rate limiter\<close>


lemma check_record_cooldown:
  "in_cooldown now r \<Longrightarrow> check_record now N W r = (False, r)"
  by (simp add: check_record_def in_cooldown_def)

lemma check_record_allowed:
  "\<not> in_cooldown now r \<Longrightarrow> int (length (in_window now W r)) < N \<Longrightarrow>
   check_record now N W r =
     (True, r\<lparr>attempts := in_window now W r @ [now], blocked := False\<rparr>)"
  by (auto simp: check_record_def in_cooldown_def in_window_def Let_def)

lemma check_record_blocking:
  "\<not> in_cooldown now r \<Longrightarrow> \<not> int (length (in_window now W r)) < N \<Longrightarrow>
   check_record now N W r =
     (False, r\<lparr>attempts := in_window now W r, blocked := True, blockedUntil := now + W * 2\<rparr>)"
  by (auto simp: check_record_def in_cooldown_def in_window_def Let_def)

lemma isAllowed_unfold:
  "isAllowed now a i N W lim =
     (fst (check_record now N W (record_of lim (limit_key a i))),
      lim(limit_key a i \<mapsto> snd (check_record now N W (record_of lim (limit_key a i)))))"
  by (simp add: isAllowed_def Let_def split: prod.splits)

lemma record_of_upd [simp]: "record_of (lim(k \<mapsto> r)) k = r"
  by (simp add: record_of_def)

lemma cooldown_has_record:
  "in_cooldown now (record_of lim k) \<Longrightarrow> lim k = Some (record_of lim k)"
  by (auto simp: record_of_def in_cooldown_def new_record_def split: option.splits)

lemma window_empty_after_cooldown:
  assumes "\<forall>x \<in> set (attempts r). x \<le> t0" "t0 \<le> t" "t0 + 2 * W \<le> t"
  shows "in_window t W (r\<lparr>attempts := in_window t0 W r, blocked := b, blockedUntil := u\<rparr>) = []"
proof -
  have "\<not> t - x < W" if "x \<in> set (attempts r)" for x
  proof -
    from that assms(1) have "x \<le> t0" by blast
    with assms(2,3) show ?thesis by (cases "0 \<le> W") linarith+
  qed
  then show ?thesis by (auto simp: in_window_def filter_empty_conv)
qed


text \<open>
  C1. For the key of an action kind and an identifier, with \<open>maxAttempts = N\<close> and
  \<open>timeWindowMs = W\<close>: \<open>isAllowed\<close> returns true exactly when no cooldown is active and
  fewer than \<open>N\<close> recorded timestamps lie within the last \<open>W\<close>, and then it records the
  call's timestamp; no other key is touched. During a cooldown the call returns false and
  changes nothing. A call outside a cooldown that finds \<open>N\<close> timestamps in the window
  returns false and starts a cooldown that ends at \<open>now + 2 * W\<close>: every call before that
  time returns false whatever its parameters and the window hold, and
  \<open>getTimeUntilAllowed\<close> returns the time left; a call at or after that time is allowed
  again (for \<open>N > 0\<close> and a clock that does not run backwards) and
  \<open>getTimeUntilAllowed\<close> returns 0. In general \<open>getTimeUntilAllowed\<close> returns the time
  left of an active cooldown and 0 without one.
\<close>

theorem rate_limiter_window_and_cooldown:
  assumes r: "r = record_of lim (limit_key a i)"
    and res: "isAllowed now a i N W lim = (ok, lim')"
  shows "(ok = (\<not> in_cooldown now r \<and> int (length (in_window now W r)) < N))
       \<and> (\<forall>k. k \<noteq> limit_key a i \<longrightarrow> lim' k = lim k)
       \<and> (ok \<longrightarrow> lim' (limit_key a i)
                  = Some (r\<lparr>attempts := in_window now W r @ [now], blocked := False\<rparr>))
       \<and> (in_cooldown now r \<longrightarrow> lim' = lim)
       \<and> (\<not> ok \<and> \<not> in_cooldown now r \<longrightarrow>
            lim' (limit_key a i)
              = Some (r\<lparr>attempts := in_window now W r, blocked := True,
                        blockedUntil := now + 2 * W\<rparr>)
          \<and> (\<forall>t N' W'. t < now + 2 * W \<longrightarrow>
                isAllowed t a i N' W' lim' = (False, lim')
              \<and> getTimeUntilAllowed t a i lim' = now + 2 * W - t)
          \<and> (\<forall>t. 0 < N \<and> (\<forall>x \<in> set (attempts r). x \<le> now) \<and> now \<le> t \<and> now + 2 * W \<le> t \<longrightarrow>
                fst (isAllowed t a i N W lim') \<and> getTimeUntilAllowed t a i lim' = 0))
       \<and> getTimeUntilAllowed now a i lim = (if in_cooldown now r then blockedUntil r - now else 0)"
proof -
  let ?k = "limit_key a i"
  have ok: "ok = fst (check_record now N W r)"
    and lim': "lim' = lim(?k \<mapsto> snd (check_record now N W r))"
    using res by (simp_all add: isAllowed_unfold r)
  have p1: "ok = (\<not> in_cooldown now r \<and> int (length (in_window now W r)) < N)"
    unfolding ok
    using check_record_cooldown[of now r N W] check_record_allowed[of now r W N]
      check_record_blocking[of now r W N]
    by (cases "in_cooldown now r"; cases "int (length (in_window now W r)) < N") simp_all
  have p2: "\<forall>k. k \<noteq> ?k \<longrightarrow> lim' k = lim k"
    by (simp add: lim')
  have p3: "ok \<longrightarrow> lim' ?k = Some (r\<lparr>attempts := in_window now W r @ [now], blocked := False\<rparr>)"
    using p1 by (auto simp: lim' check_record_allowed)
  have p4: "in_cooldown now r \<longrightarrow> lim' = lim"
    using cooldown_has_record[of now lim ?k]
    by (auto simp: lim' check_record_cooldown r fun_upd_idem)
  have p5: "lim' ?k = Some (r\<lparr>attempts := in_window now W r, blocked := True,
                        blockedUntil := now + 2 * W\<rparr>)
          \<and> (\<forall>t N' W'. t < now + 2 * W \<longrightarrow>
                isAllowed t a i N' W' lim' = (False, lim')
              \<and> getTimeUntilAllowed t a i lim' = now + 2 * W - t)
          \<and> (\<forall>t. 0 < N \<and> (\<forall>x \<in> set (attempts r). x \<le> now) \<and> now \<le> t \<and> now + 2 * W \<le> t \<longrightarrow>
                fst (isAllowed t a i N W lim') \<and> getTimeUntilAllowed t a i lim' = 0)"
    if nok: "\<not> ok" and nc: "\<not> in_cooldown now r"
  proof -
    let ?r' = "r\<lparr>attempts := in_window now W r, blocked := True, blockedUntil := now + 2 * W\<rparr>"
    from nok nc p1 have full: "\<not> int (length (in_window now W r)) < N" by simp
    have k: "lim' ?k = Some ?r'"
      using check_record_blocking[OF nc full] by (simp add: lim' mult.commute)
    have during: "isAllowed t a i N' W' lim' = (False, lim')
              \<and> getTimeUntilAllowed t a i lim' = now + 2 * W - t" if "t < now + 2 * W" for t N' W'
    proof -
      have c: "in_cooldown t ?r'" using that by (simp add: in_cooldown_def)
      have "record_of lim' ?k = ?r'" using k by (simp add: record_of_def)
      then have "isAllowed t a i N' W' lim' = (False, lim'(?k \<mapsto> ?r'))"
        using check_record_cooldown[OF c] by (simp add: isAllowed_unfold)
      moreover have "lim'(?k \<mapsto> ?r') = lim'" using k by (simp add: fun_upd_idem)
      moreover have "getTimeUntilAllowed t a i lim' = now + 2 * W - t"
        using that k by (simp add: getTimeUntilAllowed_def)
      ultimately show ?thesis by simp
    qed
    have after: "fst (isAllowed t a i N W lim') \<and> getTimeUntilAllowed t a i lim' = 0"
      if h: "0 < N \<and> (\<forall>x \<in> set (attempts r). x \<le> now) \<and> now \<le> t \<and> now + 2 * W \<le> t" for t
    proof -
      have nc': "\<not> in_cooldown t ?r'" using h by (simp add: in_cooldown_def)
      have w: "in_window t W ?r' = []"
        using window_empty_after_cooldown[of r now t W] h by blast
      have rec: "record_of lim' ?k = ?r'" using k by (simp add: record_of_def)
      have "fst (check_record t N W ?r')"
        using check_record_allowed[OF nc', of W N] h w by simp
      then have "fst (isAllowed t a i N W lim')" by (simp add: isAllowed_unfold rec)
      moreover have "getTimeUntilAllowed t a i lim' = 0"
        using h k by (simp add: getTimeUntilAllowed_def)
      ultimately show ?thesis by simp
    qed
    from k during after show ?thesis by blast
  qed
  have p6: "getTimeUntilAllowed now a i lim = (if in_cooldown now r then blockedUntil r - now else 0)"
    by (auto simp: getTimeUntilAllowed_def r record_of_def in_cooldown_def new_record_def
             split: option.splits)
  from p1 p2 p3 p4 p5 p6 show ?thesis by blast
qed


theorem rate_limiter_window_and_cooldown_witness:
  "fst (isAllowed 5 ''connect'' ''me'' 2 10 example_limits) = False
   \<and> isAllowed 20 ''connect'' ''me'' 2 10 (snd (isAllowed 5 ''connect'' ''me'' 2 10 example_limits))
       = (False, snd (isAllowed 5 ''connect'' ''me'' 2 10 example_limits))
   \<and> getTimeUntilAllowed 20 ''connect'' ''me'' (snd (isAllowed 5 ''connect'' ''me'' 2 10 example_limits)) = 5
   \<and> fst (isAllowed 25 ''connect'' ''me'' 2 10 (snd (isAllowed 5 ''connect'' ''me'' 2 10 example_limits)))
   \<and> getTimeUntilAllowed 25 ''connect'' ''me'' (snd (isAllowed 5 ''connect'' ''me'' 2 10 example_limits)) = 0"
proof -
  obtain ok lim' where res: "isAllowed 5 ''connect'' ''me'' 2 10 example_limits = (ok, lim')"
    by (cases "isAllowed 5 ''connect'' ''me'' 2 10 example_limits") blast
  let ?r = "record_of example_limits (limit_key ''connect'' ''me'')"
  have r: "?r = \<lparr>attempts = [0, 1], blocked = False, blockedUntil = 0\<rparr>"
    by (simp add: record_of_def example_limits_def limit_key_def)
  have nc: "\<not> in_cooldown 5 ?r" by (simp add: r in_cooldown_def)
  have w: "in_window 5 10 ?r = [0, 1]" by (simp add: r in_window_def)
  have mono: "\<forall>x \<in> set (attempts ?r). x \<le> 5" by (simp add: r)
  note th = rate_limiter_window_and_cooldown [OF refl res]
  from th nc w have nok: "\<not> ok" by simp
  from th nok nc have
    during: "\<forall>t N' W'. t < 5 + 2 * 10 \<longrightarrow> isAllowed t ''connect'' ''me'' N' W' lim' = (False, lim')
              \<and> getTimeUntilAllowed t ''connect'' ''me'' lim' = 5 + 2 * 10 - t"
    and after: "\<forall>t. 0 < (2::int) \<and> (\<forall>x \<in> set (attempts ?r). x \<le> 5) \<and> 5 \<le> t \<and> 5 + 2 * 10 \<le> t \<longrightarrow>
                fst (isAllowed t ''connect'' ''me'' 2 10 lim') \<and> getTimeUntilAllowed t ''connect'' ''me'' lim' = 0"
    by blast+
  from during [rule_format, of 20 2 10]
  have "isAllowed 20 ''connect'' ''me'' 2 10 lim' = (False, lim')
      \<and> getTimeUntilAllowed 20 ''connect'' ''me'' lim' = 5"
    by simp
  moreover from after [rule_format, of 25] mono
  have "fst (isAllowed 25 ''connect'' ''me'' 2 10 lim')
      \<and> getTimeUntilAllowed 25 ''connect'' ''me'' lim' = 0"
    by simp
  ultimately show ?thesis using nok by (simp add: res)
qed

section \<open>Properties of the message log\<close>

subsection \<open>Evaluation of the sample runs, and deletion\<close>

lemma table_get_plain:
  "map_of OBJECT_PROTOTYPE k = None \<Longrightarrow>
   table_get table k = (case table k of None \<Rightarrow> Missing | Some v \<Rightarrow> Own v)"
  by (simp add: table_get_def split: option.splits)

lemma table_get_not_inherited:
  "\<not> inherited table k \<Longrightarrow>
   table_get table k = (case table k of None \<Rightarrow> Missing | Some v \<Rightarrow> Own v)"
  by (auto simp: table_get_def inherited_def split: option.splits)

lemma table_get_Own_iff [simp]: "(table_get table k = Own v) = (table k = Some v)"
  by (auto simp: table_get_def split: option.splits)

lemma table_get_Inherited_iff: "(\<exists>len. table_get table k = Inherited len) = inherited table k"
  by (auto simp: table_get_def inherited_def split: option.splits)

lemma table_get_Missing_None: "table_get table k = Missing \<Longrightarrow> table k = None"
  by (auto simp: table_get_def split: option.splits)

lemmas tm_eval = run_def init_state_def handleTweetMessage_def tweetData_of_def validateTweet_def
  get_prop_def
  inbound_id_def addTweet_def addTweet_id_def tweet_object_def media_props_def
  store_tweet_def tweet_id_def tweet_key_def sortTweets_def tweet_time_def saveTweets_def
  log_effects_def suspend_def saveMessageDistributionState_def add_recipient_def add_unsent_def
  remove_unsent_def not_confirmed_def is_recipient_def peer_connected_def queue_missing_def
  attempt_def table_get_def OBJECT_PROTOTYPE_def
  MAX_TWEETS_STORAGE_def MAX_TWEET_LENGTH_def VALID_TWEET_PROPS_def Let_def
  deleteTweet_def deleteTweet_start_def deleteTweet_finish_def handleTweetAckMessage_def

lemmas sample_defs = bob_def carol_def bob_dead_def bob_again_def msg_hi_def msg_injected_def
  msg_blank_def msg_seven_def msg_seven_text_def msg_constructor_def msg_picture_def received_hi_def

lemma received_hi_tweets:
  "tweets received_hi = [[(''username'', JStr ''alice''), (''content'', JStr ''hi''),
                          (''timestamp'', JNum 1000), (''id'', JStr ''m1'')]]"
  by (simp add: tm_eval sample_defs)

lemma received_hi_recipients: "tweetRecipients received_hi = [''m1'' \<mapsto> [''bob'']]"
  by (simp add: tm_eval sample_defs)

lemma received_hi_unsent: "unsentTweets received_hi = [''carol'' \<mapsto> [JStr ''m1'']]"
  by (simp add: tm_eval sample_defs)

lemma received_hi_effects:
  "effects received_hi = [Save TWEETS, Sent ''bob'' (TweetAck (JStr ''m1'')), Save TWEET_RECIPIENTS]"
  by (simp add: tm_eval sample_defs)

lemma received_hi_suspended:
  "suspended received_hi = [ThenSaveDistribution, ThenSaveUnsent]"
  by (simp add: tm_eval sample_defs)

lemma length_filter_eq_iff:
  "(length (filter P xs) = length xs) = (\<forall>x \<in> set xs. P x)"
proof
  assume eq: "length (filter P xs) = length xs"
  show "\<forall>x \<in> set xs. P x"
  proof
    fix x assume "x \<in> set xs"
    then show "P x" using length_filter_less [of x xs P] eq by auto
  qed
next
  assume "\<forall>x \<in> set xs. P x"
  then show "length (filter P xs) = length xs" by (simp add: filter_id_conv)
qed

lemma find_None_absent:
  "\<not> list_ex (\<lambda>t. tweet_id t = i) ts \<Longrightarrow> find (\<lambda>t. tweet_id t = i) ts = None"
  by (simp add: find_None_iff list_ex_iff)

lemma filter_absent:
  "\<not> list_ex (\<lambda>t. tweet_id t = i) ts \<Longrightarrow> filter (\<lambda>t. tweet_id t \<noteq> i) ts = ts"
  by (simp add: list_ex_iff filter_id_conv)

lemma tweets_saveTweets:
  "tweets (saveTweets s) = take MAX_TWEETS_STORAGE (tweets s)"
  by (simp add: saveTweets_def log_effects_def suspend_def Let_def)

lemma tweets_deleteTweet_start [simp]: "tweets (snd (deleteTweet_start i s)) = tweets s"
  by (simp add: deleteTweet_start_def log_effects_def split: option.splits)

lemma tweets_deleteTweet_finish:
  "tweets (snd (deleteTweet_finish i n s)) =
     (if length (filter (\<lambda>t. tweet_id t \<noteq> i) (tweets s)) \<noteq> n
      then take MAX_TWEETS_STORAGE (filter (\<lambda>t. tweet_id t \<noteq> i) (tweets s))
      else filter (\<lambda>t. tweet_id t \<noteq> i) (tweets s))"
  by (simp add: deleteTweet_finish_def Let_def tweets_saveTweets)

lemma deleteTweet_tweets:
  "tweets (snd (deleteTweet i s)) =
     (if list_ex (\<lambda>t. tweet_id t = i) (tweets s)
      then take MAX_TWEETS_STORAGE (filter (\<lambda>t. tweet_id t \<noteq> i) (tweets s))
      else tweets s)"
  by (auto simp: deleteTweet_def tweets_deleteTweet_finish length_filter_eq_iff
        list_ex_iff filter_id_conv)

lemma deleteTweet_tables:
  "tweetRecipients (snd (deleteTweet i s)) = tweetRecipients s
   \<and> unsentTweets (snd (deleteTweet i s)) = unsentTweets s"
  by (auto simp: deleteTweet_def deleteTweet_start_def deleteTweet_finish_def Let_def
        saveTweets_def log_effects_def suspend_def split: option.splits)



text \<open>
  C2. \<open>deleteTweet\<close> of a stored message removes it from the log and sends nothing, but it
  leaves the recipient-set entry of the message in place: in the run where the node received
  \<open>m1\<close> from bob and carol connected, deleting \<open>m1\<close> returns true and empties the log, the
  only effect is the write of the log that \<open>saveTweets\<close> asks for (the writes of the two
  tables wait behind it), and bob is still recorded as a recipient of \<open>m1\<close> (and \<open>m1\<close>
  is still queued for carol).
\<close>

theorem deleteTweet_keeps_recipient_entry:
  "fst (deleteTweet (JStr ''m1'') received_hi)
   \<and> tweets (snd (deleteTweet (JStr ''m1'') received_hi)) = []
   \<and> effects (snd (deleteTweet (JStr ''m1'') received_hi)) = effects received_hi @ [Save TWEETS]
   \<and> suspended (snd (deleteTweet (JStr ''m1'') received_hi))
       = suspended received_hi @ [ThenSaveDistribution]
   \<and> tweetRecipients (snd (deleteTweet (JStr ''m1'') received_hi)) ''m1'' = Some [''bob'']
   \<and> unsentTweets (snd (deleteTweet (JStr ''m1'') received_hi)) ''carol'' = Some [JStr ''m1'']"
  by (simp add: deleteTweet_tables received_hi_recipients received_hi_unsent deleteTweet_tweets
        received_hi_tweets tweet_id_def get_prop_def)
     (simp add: deleteTweet_def deleteTweet_start_def deleteTweet_finish_def Let_def
        received_hi_tweets tweet_id_def get_prop_def
        saveTweets_def log_effects_def suspend_def MAX_TWEETS_STORAGE_def)

subsection \<open>The log under the operations\<close>

lemma tweets_log_effects [simp]: "tweets (log_effects es s) = tweets s"
  by (simp add: log_effects_def)

lemma tweets_suspend [simp]: "tweets (suspend d s) = tweets s"
  by (simp add: suspend_def)

lemma tweets_saveDist [simp]: "tweets (saveMessageDistributionState s) = tweets s"
  by (simp add: saveMessageDistributionState_def)

lemma add_recipient_tweets: "add_recipient i p s = Inr s' \<Longrightarrow> tweets s' = tweets s"
  by (auto simp: add_recipient_def split: found.splits if_splits)

lemma add_unsent_tweets: "add_unsent p i s = Inr s' \<Longrightarrow> tweets s' = tweets s"
  by (auto simp: add_unsent_def split: found.splits if_splits)

lemma remove_unsent_tweets: "remove_unsent p i s = Inr s' \<Longrightarrow> tweets s' = tweets s"
  by (auto simp: remove_unsent_def split: found.splits)

lemma tweets_attempt:
  "(\<And>s'. r = Inr s' \<Longrightarrow> tweets s' = tweets s) \<Longrightarrow> tweets (snd (attempt r s)) = tweets s"
  by (cases r) (simp_all add: attempt_def)

lemma for_each_frame:
  assumes "\<And>x s. g (snd (f x s)) = g s"
  shows "g (snd (for_each f xs s)) = g s"
proof (induction xs arbitrary: s)
  case Nil
  show ?case by simp
next
  case (Cons x xs)
  obtain r s1 where fx: "f x s = (r, s1)" by (cases "f x s")
  from assms [of x s] fx have g1: "g s1 = g s" by simp
  show ?case
  proof (cases r)
    case None
    with fx Cons.IH [of s1] g1 show ?thesis by simp
  next
    case (Some e)
    with fx g1 show ?thesis by simp
  qed
qed

lemma tweets_forget_fold [simp]: "tweets (foldl forget_tweet s ts) = tweets s"
  by (induction ts arbitrary: s) (simp_all add: forget_tweet_def)

lemma tweets_broadcast_mark [simp]: "tweets (snd (broadcast_mark i c s)) = tweets s"
  by (auto simp: broadcast_mark_def split: found.splits intro!: trans [OF tweets_attempt]
        dest: remove_unsent_tweets)

lemma tweets_broadcast_one [simp]: "tweets (snd (broadcast_one i d c s)) = tweets s"
proof -
  have a: "tweets (snd (attempt (add_unsent p i s1) s1)) = tweets s1" for p s1
    by (rule tweets_attempt) (erule add_unsent_tweets)
  show ?thesis
  proof (cases "sendable c")
    case True
    obtain r s1 where m: "broadcast_mark i c (log_effects [Sent (peer c) (Tweet d)] s) = (r, s1)"
      by (cases "broadcast_mark i c (log_effects [Sent (peer c) (Tweet d)] s)")
    from tweets_broadcast_mark [of i c "log_effects [Sent (peer c) (Tweet d)] s"] m
    have "tweets s1 = tweets s" by simp
    with True m a [of "peer c" s1] show ?thesis
      by (cases r) (simp_all add: broadcast_one_def)
  next
    case False
    with a [of "peer c" "log_effects [SendFailed (peer c) (Tweet d)] s"] show ?thesis
      by (simp add: broadcast_one_def)
  qed
qed

lemma tweets_broadcastTweet [simp]:
  "tweets (snd (broadcastTweet u c ts i m1 m2 m3 cs s)) = tweets s"
proof -
  let ?d = "(''type'', JStr ''tweet'') # tweet_object u c ts i m1 m2 m3"
  have "tweets (snd (for_each (broadcast_one i ?d) cs s)) = tweets s"
    by (rule for_each_frame) simp
  then show ?thesis
    by (cases "for_each (broadcast_one i ?d) cs s")
       (auto simp: broadcastTweet_def Let_def split: option.splits)
qed

lemma tweets_queue_missing [simp]: "tweets (snd (queue_missing p t s)) = tweets s"
  by (auto simp: queue_missing_def split: sum.splits bool.splits intro!: tweets_attempt
        dest: add_unsent_tweets)

lemma tweets_peer_connected [simp]: "tweets (snd (peer_connected c s)) = tweets s"
proof -
  have "tweets (snd (for_each (queue_missing p) ts s1)) = tweets s1" for p ts s1
    by (rule for_each_frame) simp
  then show ?thesis by (simp add: peer_connected_def Let_def split: found.splits)
qed

lemma tweets_mark_sent [simp]: "tweets (snd (mark_sent p t s)) = tweets s"
  by (auto simp: mark_sent_def split: sum.splits
        dest!: add_recipient_tweets intro!: trans [OF tweets_attempt] dest: remove_unsent_tweets)

lemma tweets_keep_unsent [simp]: "tweets (snd (keep_unsent p t s)) = tweets s"
  by (auto simp: keep_unsent_def intro!: tweets_attempt dest: add_unsent_tweets)

lemma tweets_send_batch [simp]: "tweets (snd (send_batch c b s)) = tweets s"
proof -
  have a: "tweets (snd (for_each (mark_sent p) b s0)) = tweets s0" for p s0
    by (rule for_each_frame) simp
  have f: "tweets (snd (for_each (keep_unsent p) b s0)) = tweets s0" for p s0
    by (rule for_each_frame) simp
  show ?thesis
  proof (cases "sendable c")
    case True
    obtain r s1 where m: "for_each (mark_sent (peer c)) b (log_effects [Sent (peer c) (AllTweets b)] s) = (r, s1)"
      by (cases "for_each (mark_sent (peer c)) b (log_effects [Sent (peer c) (AllTweets b)] s)")
    from a [of "peer c" "log_effects [Sent (peer c) (AllTweets b)] s"] m
    have s1: "tweets s1 = tweets s" by simp
    obtain r2 s2 where k: "for_each (keep_unsent (peer c)) b s1 = (r2, s2)"
      by (cases "for_each (keep_unsent (peer c)) b s1")
    from f [of "peer c" s1] k s1 have "tweets s2 = tweets s" by simp
    with True m k s1 show ?thesis
      by (cases r; cases r2) (simp_all add: send_batch_def)
  next
    case False
    obtain r2 s2 where k: "for_each (keep_unsent (peer c)) b (log_effects [SendFailed (peer c) (AllTweets b)] s) = (r2, s2)"
      by (cases "for_each (keep_unsent (peer c)) b (log_effects [SendFailed (peer c) (AllTweets b)] s)")
    from f [of "peer c" "log_effects [SendFailed (peer c) (AllTweets b)] s"] k
    have "tweets s2 = tweets s" by simp
    with False k show ?thesis by (cases r2) (simp_all add: send_batch_def)
  qed
qed

lemma tweets_handleTweetAck [simp]: "tweets (snd (handleTweetAckMessage i c s)) = tweets s"
  by (auto simp: handleTweetAckMessage_def split: found.splits sum.splits
        dest!: remove_unsent_tweets)

lemma tweets_bulk_ack_one [simp]: "tweets (snd (bulk_ack_one c i s)) = tweets s"
  by (auto simp: bulk_ack_one_def split: found.splits intro!: trans [OF tweets_attempt]
        dest: remove_unsent_tweets)

lemma tweets_bulk_ack [simp]: "tweets (snd (handleBulkTweetAckMessage ids c s)) = tweets s"
proof -
  have "tweets (snd (for_each (bulk_ack_one c) ids s)) = tweets s"
    by (rule for_each_frame) simp
  then show ?thesis
    by (cases "for_each (bulk_ack_one c) ids s")
       (auto simp: handleBulkTweetAckMessage_def split: option.splits)
qed

text \<open>The object \<open>addTweet\<close> builds carries the id it was given or computed.\<close>

lemma tweet_id_tweet_object [simp]: "tweet_id (tweet_object u c ts i m1 m2 m3) = i"
  by (simp add: tweet_id_def get_prop_def tweet_object_def)

lemma distinct_ids_sort:
  "distinct (map tweet_id (sortTweets ts)) = distinct (map tweet_id ts)"
  by (simp add: sortTweets_def distinct_map)

lemma distinct_ids_take:
  "distinct (map tweet_id ts) \<Longrightarrow> distinct (map tweet_id (take n ts))"
  by (simp add: take_map [symmetric])

lemma tweets_store_tweet:
  "tweets (store_tweet rs i tw s) =
     take MAX_TWEETS_STORAGE (sortTweets (tweets s @ [tw]))"
  by (simp add: store_tweet_def Let_def tweets_saveTweets split: option.splits found.splits)

text \<open>The ways \<open>addTweet\<close> ends.\<close>

lemma addTweet_present:
  "list_ex (\<lambda>t. tweet_id t = addTweet_id peerId u c ts ident) (tweets s) \<Longrightarrow>
   addTweet now peerId u c ts rs ident m1 m2 m3 s = Inr (addTweet_id peerId u c ts ident, s)"
  by (simp add: addTweet_def)

lemma addTweet_invalid:
  "\<not> list_ex (\<lambda>t. tweet_id t = addTweet_id peerId u c ts ident) (tweets s) \<Longrightarrow>
   \<not> validateTweet now (tweet_object u c ts (addTweet_id peerId u c ts ident) m1 m2 m3) \<Longrightarrow>
   addTweet now peerId u c ts rs ident m1 m2 m3 s = Inl InvalidTweet"
  by (simp add: addTweet_def)

lemma addTweet_new:
  "\<not> list_ex (\<lambda>t. tweet_id t = addTweet_id peerId u c ts ident) (tweets s) \<Longrightarrow>
   validateTweet now (tweet_object u c ts (addTweet_id peerId u c ts ident) m1 m2 m3) \<Longrightarrow>
   rs = None \<or> js_to_string (addTweet_id peerId u c ts ident) \<noteq> ''__proto__'' \<Longrightarrow>
   addTweet now peerId u c ts rs ident m1 m2 m3 s =
     Inr (addTweet_id peerId u c ts ident,
          store_tweet rs (addTweet_id peerId u c ts ident)
            (tweet_object u c ts (addTweet_id peerId u c ts ident) m1 m2 m3) s)"
  by (auto simp: addTweet_def Let_def)

lemma addTweet_Inr_id:
  "addTweet now peerId u c ts rs ident m1 m2 m3 s = Inr (i, s') \<Longrightarrow>
   i = addTweet_id peerId u c ts ident"
  by (simp add: addTweet_def Let_def split: if_splits)

lemma addTweet_Inr_cases:
  assumes "addTweet now peerId u c ts rs ident m1 m2 m3 s = Inr (i, s')"
  shows "(list_ex (\<lambda>t. tweet_id t = i) (tweets s) \<and> s' = s)
       \<or> (\<not> list_ex (\<lambda>t. tweet_id t = i) (tweets s)
          \<and> validateTweet now (tweet_object u c ts i m1 m2 m3)
          \<and> s' = store_tweet rs i (tweet_object u c ts i m1 m2 m3) s)"
  using assms by (auto simp: addTweet_def Let_def split: if_splits)

lemma addTweet_distinct:
  assumes res: "addTweet now peerId u c ts rs ident m1 m2 m3 s = Inr (i, s')"
    and d: "distinct (map tweet_id (tweets s))"
  shows "distinct (map tweet_id (tweets s'))"
  using addTweet_Inr_cases [OF res]
proof
  assume "list_ex (\<lambda>t. tweet_id t = i) (tweets s) \<and> s' = s"
  with d show ?thesis by simp
next
  let ?tw = "tweet_object u c ts i m1 m2 m3"
  assume a: "\<not> list_ex (\<lambda>t. tweet_id t = i) (tweets s) \<and> validateTweet now ?tw
             \<and> s' = store_tweet rs i ?tw s"
  then have s': "s' = store_tweet rs i ?tw s" by simp
  from a d have "distinct (map tweet_id (tweets s @ [?tw]))"
    by (auto simp: list_ex_iff)
  then show ?thesis
    unfolding s' tweets_store_tweet by (intro distinct_ids_take) (simp only: distinct_ids_sort)
qed

lemma createTweet_distinct:
  assumes "distinct (map tweet_id (tweets s))"
  shows "distinct (map tweet_id (tweets (snd (createTweet now peerId u c mf cs s))))"
proof -
  have a: "distinct (map tweet_id (tweets (s\<lparr>rateLimiter := l\<rparr>)))" for l
    using assms by simp
  have b: "distinct (map tweet_id (tweets s3))"
    if "addTweet now peerId u c ts rs ident m1 m2 m3 (s\<lparr>rateLimiter := l\<rparr>) = Inr (i, s2)"
      and "broadcastTweet u c ts j m1 m2 m3 cs s2 = (r, s3)"
    for ts rs ident m1 m2 m3 l i s2 j r s3
  proof -
    from addTweet_distinct [OF that(1) a] have "distinct (map tweet_id (tweets s2))" .
    moreover from tweets_broadcastTweet [of u c ts j m1 m2 m3 cs s2] that(2)
    have "tweets s3 = tweets s2" by simp
    ultimately show ?thesis by simp
  qed
  show ?thesis
    using assms a
    by (auto simp: createTweet_def Let_def split: prod.splits sum.splits option.splits
             dest: b)
qed

lemma deleteTweet_finish_distinct:
  "distinct (map tweet_id (tweets s)) \<Longrightarrow>
   distinct (map tweet_id (tweets (snd (deleteTweet_finish i n s))))"
  by (simp add: tweets_deleteTweet_finish distinct_ids_take distinct_map_filter)

lemma delete_tweet_event_distinct:
  "distinct (map tweet_id (tweets s)) \<Longrightarrow>
   distinct (map tweet_id (tweets (delete_tweet_event i s)))"
proof -
  assume d: "distinct (map tweet_id (tweets s))"
  obtain w s1 where st: "deleteTweet_start i s = (w, s1)" by (cases "deleteTweet_start i s")
  from tweets_deleteTweet_start [of i s] st have "tweets s1 = tweets s" by simp
  with d have "distinct (map tweet_id (tweets s1))" by simp
  with st show ?thesis
    by (cases w) (simp_all add: delete_tweet_event_def deleteTweet_finish_distinct)
qed

lemma resume_distinct:
  "distinct (map tweet_id (tweets s)) \<Longrightarrow> distinct (map tweet_id (tweets (resume ok d s)))"
  by (cases d)
     (auto simp: deleteTweet_finish_distinct purge_media_def tweets_saveTweets distinct_ids_take
        split: list.splits)

lemma resume_event_distinct:
  "distinct (map tweet_id (tweets s)) \<Longrightarrow>
   distinct (map tweet_id (tweets (resume_event k ok s)))"
  by (simp add: resume_event_def resume_distinct)

lemma add_recipient_distinct:
  "add_recipient i p s = Inr s' \<Longrightarrow> distinct (map tweet_id (tweets s)) \<Longrightarrow>
   distinct (map tweet_id (tweets s'))"
  by (drule add_recipient_tweets) simp

lemma handleTweetMessage_distinct:
  "distinct (map tweet_id (tweets s)) \<Longrightarrow>
   distinct (map tweet_id (tweets (handleTweetMessage now peerId d c s)))"
  by (auto simp: handleTweetMessage_def Let_def split: sum.splits
        dest: addTweet_distinct add_recipient_distinct)

lemma receive_one_distinct:
  "distinct (map tweet_id (tweets (fst acc))) \<Longrightarrow>
   distinct (map tweet_id (tweets (fst (receive_one now peerId c acc t))))"
  by (auto simp: receive_one_def Let_def split: prod.splits sum.splits
        dest: addTweet_distinct add_recipient_distinct)

lemma receive_fold_distinct:
  "distinct (map tweet_id (tweets (fst acc))) \<Longrightarrow>
   distinct (map tweet_id (tweets (fst (foldl (receive_one now peerId c) acc ts))))"
  by (induction ts arbitrary: acc) (simp_all add: receive_one_distinct)

lemma handleAllTweetsMessage_distinct:
  "distinct (map tweet_id (tweets s)) \<Longrightarrow>
   distinct (map tweet_id (tweets (handleAllTweetsMessage now peerId ts c s)))"
  using receive_fold_distinct [of "(s, [])" now peerId c ts]
  by (auto simp: handleAllTweetsMessage_def Let_def split: prod.splits)

lemma deleteAllTweets_tweets [simp]: "tweets (snd (deleteAllTweets s)) = []"
  by (simp add: deleteAllTweets_def Let_def tweets_saveTweets split: list.splits)

lemma step_distinct:
  "distinct (map tweet_id (tweets s)) \<Longrightarrow> distinct (map tweet_id (tweets (step peerId s e)))"
  by (cases e)
     (simp_all add: createTweet_distinct delete_tweet_event_distinct resume_event_distinct
        handleTweetMessage_distinct handleAllTweetsMessage_distinct)

lemma foldl_step_distinct:
  "distinct (map tweet_id (tweets s)) \<Longrightarrow>
   distinct (map tweet_id (tweets (foldl (step peerId) s evs)))"
  by (induction evs arbitrary: s) (simp_all add: step_distinct)

lemma nat_to_base_nonempty [simp]: "nat_to_base b n \<noteq> []"
  by (subst nat_to_base.simps) simp

lemma generateUniqueId_nonempty [simp]: "generateUniqueId p u c ts \<noteq> []"
  by (cases "js_to_string u") (simp_all add: generateUniqueId_def Let_def)

lemma inbound_id_truthy [simp]: "truthy (inbound_id p d)"
  by (simp add: inbound_id_def)

lemma addTweet_id_truthy [simp]: "truthy i \<Longrightarrow> addTweet_id p u c ts i = i"
  by (simp add: addTweet_id_def)

lemma handleTweetMessage_present:
  assumes "list_ex (\<lambda>t. tweet_id t = inbound_id peerId d) (tweets s)"
  shows "tweets (handleTweetMessage now peerId d c s) = tweets s"
  using assms
  by (auto simp: handleTweetMessage_def Let_def addTweet_present split: sum.splits
        dest: add_recipient_tweets)

lemma receive_fold_present:
  assumes "\<forall>t \<in> set ts. list_ex (\<lambda>x. tweet_id x = inbound_id peerId t) (tweets (fst acc))"
  shows "tweets (fst (foldl (receive_one now peerId c) acc ts)) = tweets (fst acc)"
  using assms
proof (induction ts arbitrary: acc)
  case Nil
  then show ?case by simp
next
  case (Cons t ts)
  obtain s ids where acc: "acc = (s, ids)" by (cases acc)
  from Cons.prems have here: "list_ex (\<lambda>x. tweet_id x = inbound_id peerId t) (tweets s)"
    by (simp add: acc)
  have one: "tweets (fst (receive_one now peerId c acc t)) = tweets s"
    using here
    by (auto simp: receive_one_def acc Let_def addTweet_present split: sum.splits
          dest: add_recipient_tweets)
  with Cons.prems have
    "\<forall>t' \<in> set ts. list_ex (\<lambda>x. tweet_id x = inbound_id peerId t')
        (tweets (fst (receive_one now peerId c acc t)))"
    by (simp add: acc)
  from Cons.IH [OF this] one show ?case by (simp add: acc)
qed

lemma handleAllTweetsMessage_present:
  assumes "\<forall>t \<in> set ts. list_ex (\<lambda>x. tweet_id x = inbound_id peerId t) (tweets s)"
  shows "tweets (handleAllTweetsMessage now peerId ts c s) = tweets s"
  using receive_fold_present [of ts peerId "(s, [])" now c] assms
  by (auto simp: handleAllTweetsMessage_def Let_def split: prod.splits)

lemma createTweet_present:
  assumes "list_ex (\<lambda>t. tweet_id t = JStr (generateUniqueId peerId u c (JNum now))) (tweets s)"
  shows "tweets (snd (createTweet now peerId u c mf cs s)) = tweets s"
proof -
  have p: "list_ex (\<lambda>t. tweet_id t = JStr (generateUniqueId peerId u c (JNum now)))
          (tweets (s\<lparr>rateLimiter := l\<rparr>))" for l
    using assms by simp
  have b: "tweets s3 = tweets s2"
    if "broadcastTweet u c ts j m1 m2 m3 cs s2 = (r, s3)" for ts j m1 m2 m3 s2 r s3
    using tweets_broadcastTweet [of u c ts j m1 m2 m3 cs s2] that by simp
  show ?thesis
    using p
    by (auto simp: createTweet_def Let_def addTweet_present split: prod.splits option.splits
          dest: b)
qed

text \<open>
  Ids are compared as \<open>addTweet\<close> compares them, with \<open>===\<close>: the number 7 and the
  string \<open>7\<close> are two ids, and the log holds a message under each, while the recipient
  table has one entry for both, under the key \<open>7\<close>.
\<close>

lemma ids_of_two_types_are_two_ids:
  "map tweet_id (tweets (run ''me'' [RecvTweet 2000 msg_seven bob, RecvTweet 2000 msg_seven_text carol]))
     = [JNum 7, JStr ''7'']
   \<and> tweetRecipients (run ''me'' [RecvTweet 2000 msg_seven bob, RecvTweet 2000 msg_seven_text carol]) ''7''
     = Some [''bob'', ''carol'']"
  by (simp add: tm_eval sample_defs int_to_string_def digit_char_def)



section \<open>Properties of the connection manager\<close>

lemma length_filter_card:
  "distinct xs \<Longrightarrow> length (filter P xs) = card {x \<in> set xs. P x}"
  by (simp add: distinct_length_filter Int_def conj_commute)

lemma count_quality_sessions:
  assumes "one_value_per_session s"
  shows "count_quality q s = sessions_with q s"
proof -
  let ?al = "peerConnectionQuality s"
  let ?cs = "connections s"
  from assms have dk: "distinct (map fst ?al)" and dp: "distinct (map peer ?cs)"
    and keys: "set (map fst ?al) = set (map peer ?cs)"
    by (simp_all add: one_value_per_session_def)
  from dk have dal: "distinct ?al" by (simp add: distinct_map)
  from dp have dcs: "distinct ?cs" by (simp add: distinct_map)
  from dp have inj: "inj_on peer (set ?cs)" by (simp add: distinct_map)
  let ?A = "{c \<in> set ?cs. map_of ?al (peer c) = Some q}"
  let ?B = "{e \<in> set ?al. snd e = q}"
  have "count_quality q s = length (filter (\<lambda>e. snd e = q) ?al)"
    by (simp add: count_quality_def filter_map comp_def)
  also have "\<dots> = card ?B" using dal by (rule length_filter_card)
  also have "?B = (\<lambda>c. (peer c, q)) ` ?A"
  proof (intro set_eqI iffI)
    fix e assume "e \<in> ?B"
    then have e: "e \<in> set ?al" and q: "snd e = q" by simp_all
    from e have "fst e \<in> set (map fst ?al)" by force
    with keys obtain c where c: "c \<in> set ?cs" "peer c = fst e" by auto
    have "map_of ?al (fst e) = Some (snd e)"
      using map_of_is_SomeI [OF dk, of "fst e" "snd e"] e by simp
    with c q have "c \<in> ?A" by simp
    moreover from c q have "e = (peer c, q)" by (cases e) simp
    ultimately show "e \<in> (\<lambda>c. (peer c, q)) ` ?A" by blast
  next
    fix e assume "e \<in> (\<lambda>c. (peer c, q)) ` ?A"
    then obtain c where "c \<in> set ?cs" "map_of ?al (peer c) = Some q" "e = (peer c, q)"
      by auto
    then show "e \<in> ?B" by (auto dest: map_of_SomeD)
  qed
  also have "card \<dots> = card ?A"
  proof (rule card_image)
    show "inj_on (\<lambda>c. (peer c, q)) ?A"
      using inj by (auto simp: inj_on_def)
  qed
  also have "\<dots> = sessions_with q s"
    using dcs by (simp add: sessions_with_def session_quality_def length_filter_card)
  finally show ?thesis .
qed

text \<open>
  The counts of \<open>updateConnectionQualityIndicator\<close> run over every value of the table,
  also those of peers without a session: one session measured \<open>good\<close> beside two such
  values \<open>poor\<close> gives \<open>poor\<close>.
\<close>

lemma values_without_session_are_counted:
  "connectionQuality (updateConnectionQualityIndicator one_good_two_stale) = ''poor''
   \<and> map (session_quality one_good_two_stale) (connections one_good_two_stale) = [Some ''good'']"
  by (simp add: updateConnectionQualityIndicator_def aggregate_quality_def one_good_two_stale_def
        pm_init_def count_quality_def session_quality_def bob_def)




text \<open>
  The reconciliation \<open>handleConnection\<close> does when the table holds a session to the
  peer: a live one makes it close the new connection and leave the table as it is, a dead
  one is taken out of the table with its handshake marker.
\<close>

lemma find_peer_Some:
  "find (\<lambda>e. peer e = p) cs = Some e \<Longrightarrow> peer e = p \<and> e \<in> set cs"
  by (auto simp: find_Some_iff)

lemma handleConnection_live_existing:
  assumes "find (\<lambda>e. peer e = peer c) (connections s) = Some e" "sendable e"
  shows "fst (handleConnection c s) = False
         \<and> connections (snd (handleConnection c s)) = connections s
         \<and> Closed (cid c) \<in> set (pm_effects (snd (handleConnection c s)))"
  using assms by (simp add: handleConnection_def pm_log_def)

lemma handleConnection_dead_existing:
  assumes "find (\<lambda>e. peer e = peer c) (connections s) = Some e" "\<not> sendable e"
  shows "fst (handleConnection c s) = True
         \<and> connections (snd (handleConnection c s))
             = remove_first (\<lambda>e. peer e = peer c) (connections s)
         \<and> peer c \<notin> handshakeCompleted (snd (handleConnection c s))"
  using assms by (simp add: handleConnection_def pm_log_def)

text \<open>
  C5. The check for an existing session runs when the listeners of a connection are
  registered, and the session enters the table only when its \<open>open\<close> event fires. Two
  connections to bob that are registered before either has opened both pass the check, and
  after both \<open>open\<close> events the table holds two live sessions to bob.
\<close>

theorem racing_connections_both_in_table:
  "fst (handleConnection bob pm_init)
   \<and> fst (handleConnection bob_again (snd (handleConnection bob pm_init)))
   \<and> connections
        (conn_open 11 bob_again
          (conn_open 10 bob
            (snd (handleConnection bob_again (snd (handleConnection bob pm_init))))))
       = [bob, bob_again]
   \<and> peer bob = peer bob_again \<and> cid bob \<noteq> cid bob_again"
  by (simp add: handleConnection_def pm_init_def conn_open_def pm_log_def bob_def bob_again_def)

section \<open>Properties of acknowledgments and catch-up\<close>

subsection \<open>The two tables under the shared updates\<close>

lemma is_recipient_log_effects [simp]: "is_recipient (log_effects es s) i p = is_recipient s i p"
  by (simp add: is_recipient_def log_effects_def)

lemma is_queued_log_effects [simp]: "is_queued (log_effects es s) p i = is_queued s p i"
  by (simp add: is_queued_def log_effects_def)

lemma is_recipient_saveDist [simp]:
  "is_recipient (saveMessageDistributionState s) i p = is_recipient s i p"
  by (simp add: saveMessageDistributionState_def is_recipient_def log_effects_def suspend_def)

lemma is_queued_saveDist [simp]:
  "is_queued (saveMessageDistributionState s) p i = is_queued s p i"
  by (simp add: saveMessageDistributionState_def is_queued_def log_effects_def suspend_def)

lemma recipients_log_effects [simp]: "tweetRecipients (log_effects es s) = tweetRecipients s"
  by (simp add: log_effects_def)

lemma recipients_saveDist [simp]:
  "tweetRecipients (saveMessageDistributionState s) = tweetRecipients s"
  by (simp add: saveMessageDistributionState_def suspend_def)

lemma unsent_log_effects [simp]: "unsentTweets (log_effects es s) = unsentTweets s"
  by (simp add: log_effects_def)

lemma unsent_saveDist [simp]:
  "unsentTweets (saveMessageDistributionState s) = unsentTweets s"
  by (simp add: saveMessageDistributionState_def suspend_def)

lemma effects_log_effects [simp]: "effects (log_effects es s) = effects s @ es"
  by (simp add: log_effects_def)

lemma effects_saveDist [simp]:
  "effects (saveMessageDistributionState s) = effects s @ [Save TWEET_RECIPIENTS]"
  by (simp add: saveMessageDistributionState_def suspend_def)

lemma suspended_log_effects [simp]: "suspended (log_effects es s) = suspended s"
  by (simp add: log_effects_def)

lemma suspended_saveDist [simp]:
  "suspended (saveMessageDistributionState s) = suspended s @ [ThenSaveUnsent]"
  by (simp add: saveMessageDistributionState_def suspend_def)

text \<open>
  The three shared updates return unless the key finds an inherited member, and then they
  do what their names say.
\<close>

lemma add_recipient_returns:
  "\<not> inherited (tweetRecipients s) (js_to_string i) \<Longrightarrow> \<exists>s'. add_recipient i p s = Inr s'"
  by (auto simp: add_recipient_def table_get_not_inherited split: option.splits)

lemma add_recipient_throws:
  "inherited (tweetRecipients s) (js_to_string i) \<Longrightarrow> add_recipient i p s = Inl TypeError"
  by (auto simp: add_recipient_def table_get_def inherited_def split: option.splits)

lemma add_recipient_Inr:
  assumes "add_recipient i p s = Inr s'"
  shows "(\<forall>i' p'. is_recipient s' i' p' =
            (is_recipient s i' p' \<or> (js_to_string i' = js_to_string i \<and> p' = p)))
       \<and> (\<forall>k. (tweetRecipients s' k = None) = (tweetRecipients s k = None \<and> k \<noteq> js_to_string i))
       \<and> (\<forall>k. k \<noteq> js_to_string i \<longrightarrow> tweetRecipients s' k = tweetRecipients s k)
       \<and> unsentTweets s' = unsentTweets s \<and> effects s' = effects s
       \<and> suspended s' = suspended s \<and> tweets s' = tweets s \<and> rateLimiter s' = rateLimiter s"
  using assms
  by (auto simp: add_recipient_def is_recipient_def dest: table_get_Missing_None
        split: found.splits if_splits option.splits)

lemma remove_unsent_returns:
  "\<not> inherited (unsentTweets s) p \<Longrightarrow> \<exists>s'. remove_unsent p i s = Inr s'"
  by (auto simp: remove_unsent_def table_get_not_inherited split: option.splits)

lemma remove_unsent_throws:
  "inherited (unsentTweets s) p \<Longrightarrow> remove_unsent p i s = Inl TypeError"
  by (auto simp: remove_unsent_def table_get_def inherited_def split: option.splits)

lemma remove_unsent_Inr:
  assumes "remove_unsent p i s = Inr s'"
  shows "(\<forall>p' i'. is_queued s' p' i' = (is_queued s p' i' \<and> \<not> (p' = p \<and> i' = i)))
       \<and> (\<forall>k. (unsentTweets s' k = None) = (unsentTweets s k = None))
       \<and> (\<forall>k. k \<noteq> p \<longrightarrow> unsentTweets s' k = unsentTweets s k)
       \<and> tweetRecipients s' = tweetRecipients s \<and> effects s' = effects s
       \<and> suspended s' = suspended s \<and> tweets s' = tweets s \<and> rateLimiter s' = rateLimiter s"
  using assms
  by (auto simp: remove_unsent_def is_queued_def dest: table_get_Missing_None
        split: found.splits if_splits option.splits)

lemma add_unsent_returns:
  "\<not> inherited (unsentTweets s) p \<Longrightarrow> \<exists>s'. add_unsent p i s = Inr s'"
  by (auto simp: add_unsent_def table_get_not_inherited split: option.splits)

lemma add_unsent_throws:
  "inherited (unsentTweets s) p \<Longrightarrow> add_unsent p i s = Inl TypeError"
  by (auto simp: add_unsent_def table_get_def inherited_def split: option.splits)

lemma add_unsent_Inr:
  assumes "add_unsent p i s = Inr s'"
  shows "(\<forall>p' i'. is_queued s' p' i' = (is_queued s p' i' \<or> (p' = p \<and> i' = i)))
       \<and> (\<forall>k. (unsentTweets s' k = None) = (unsentTweets s k = None \<and> k \<noteq> p))
       \<and> (\<forall>k. k \<noteq> p \<longrightarrow> unsentTweets s' k = unsentTweets s k)
       \<and> tweetRecipients s' = tweetRecipients s \<and> effects s' = effects s
       \<and> suspended s' = suspended s \<and> tweets s' = tweets s \<and> rateLimiter s' = rateLimiter s"
  using assms
  by (auto simp: add_unsent_def is_queued_def dest: table_get_Missing_None
        split: found.splits if_splits option.splits)

lemma inherited_mono:
  "(\<And>k. table' k = None \<Longrightarrow> table k = None) \<Longrightarrow> inherited table' k \<Longrightarrow> inherited table k"
  by (simp add: inherited_def)

lemma not_confirmed_plain:
  "\<not> inherited (tweetRecipients s) (js_to_string i) \<Longrightarrow>
   not_confirmed s i p = Inr (\<not> is_recipient s i p)"
  by (auto simp: not_confirmed_def is_recipient_def table_get_not_inherited split: option.splits)

lemma not_confirmed_throws:
  "inherited (tweetRecipients s) (js_to_string i) \<Longrightarrow> not_confirmed s i p = Inl TypeError"
  by (auto simp: not_confirmed_def table_get_def inherited_def split: option.splits)

subsection \<open>Acknowledgments\<close>

lemma table_get_Some [simp]: "table k = Some v \<Longrightarrow> table_get table k = Own v"
  by (simp add: table_get_def)

lemma ack_no_entry:
  "tweetRecipients s (js_to_string ident) = None \<Longrightarrow>
   \<not> inherited (tweetRecipients s) (js_to_string ident) \<Longrightarrow>
   handleTweetAckMessage ident c s = (None, s)"
  by (simp add: handleTweetAckMessage_def table_get_not_inherited)

lemma ack_inherited_name:
  "truthy ident \<Longrightarrow> inherited (tweetRecipients s) (js_to_string ident) \<Longrightarrow>
   handleTweetAckMessage ident c s = (Some TypeError, s)"
  by (auto simp: handleTweetAckMessage_def table_get_def inherited_def split: option.splits)

lemma ack_new_recipient:
  assumes "truthy m" "tweetRecipients s (js_to_string m) = Some ps" "peer c \<notin> set ps"
    and "\<not> inherited (unsentTweets s) (peer c)"
  shows "\<exists>s1. remove_unsent (peer c) m
                 (s\<lparr>tweetRecipients := (tweetRecipients s)(js_to_string m \<mapsto> ps @ [peer c])\<rparr>) = Inr s1
             \<and> handleTweetAckMessage m c s = (None, saveMessageDistributionState s1)"
proof -
  let ?s0 = "s\<lparr>tweetRecipients := (tweetRecipients s)(js_to_string m \<mapsto> ps @ [peer c])\<rparr>"
  from assms(4) have "\<not> inherited (unsentTweets ?s0) (peer c)" by simp
  from remove_unsent_returns [OF this] obtain s1 where r: "remove_unsent (peer c) m ?s0 = Inr s1"
    by blast
  with assms(1-3) have "handleTweetAckMessage m c s = (None, saveMessageDistributionState s1)"
    by (simp add: handleTweetAckMessage_def)
  with r show ?thesis by blast
qed

lemma bulk_ack_one_plain:
  assumes "\<not> inherited (tweetRecipients s) (js_to_string m)"
    and "\<not> inherited (unsentTweets s) (peer c)"
  shows "\<exists>s'. bulk_ack_one c m s = (None, s')
     \<and> (\<forall>i p. is_recipient s' i p =
          (is_recipient s i p
           \<or> (js_to_string i = js_to_string m \<and> p = peer c \<and> tweetRecipients s (js_to_string i) \<noteq> None)))
     \<and> (\<forall>k. (tweetRecipients s' k = None) = (tweetRecipients s k = None))
     \<and> (\<forall>p i. is_queued s' p i = (is_queued s p i \<and> \<not> (p = peer c \<and> i = m)))
     \<and> (\<forall>k. (unsentTweets s' k = None) = (unsentTweets s k = None))"
proof (cases "tweetRecipients s (js_to_string m)")
  case None
  from remove_unsent_returns [OF assms(2)] obtain s' where r: "remove_unsent (peer c) m s = Inr s'"
    by blast
  from None assms(1) r have "bulk_ack_one c m s = (None, s')"
    by (simp add: bulk_ack_one_def table_get_not_inherited attempt_def)
  with remove_unsent_Inr [OF r] None show ?thesis
    by (auto simp: is_recipient_def)
next
  case (Some ps)
  show ?thesis
  proof (cases "peer c \<in> set ps")
    case True
    from remove_unsent_returns [OF assms(2)] obtain s' where r: "remove_unsent (peer c) m s = Inr s'"
      by blast
    from Some True r have "bulk_ack_one c m s = (None, s')"
      by (simp add: bulk_ack_one_def table_get_def attempt_def)
    with remove_unsent_Inr [OF r] Some True show ?thesis
      by (auto simp: is_recipient_def)
  next
    case False
    let ?s0 = "s\<lparr>tweetRecipients := (tweetRecipients s)(js_to_string m \<mapsto> ps @ [peer c])\<rparr>"
    from assms(2) have "\<not> inherited (unsentTweets ?s0) (peer c)" by simp
    from remove_unsent_returns [OF this] obtain s' where r: "remove_unsent (peer c) m ?s0 = Inr s'"
      by blast
    from Some False r have b: "bulk_ack_one c m s = (None, s')"
      by (simp add: bulk_ack_one_def table_get_def attempt_def)
    have q: "is_queued ?s0 p i = is_queued s p i" for p i
      by (simp add: is_queued_def)
    from remove_unsent_Inr [OF r] have
      tr: "tweetRecipients s' = (tweetRecipients s)(js_to_string m \<mapsto> ps @ [peer c])"
      and qu: "\<forall>p i. is_queued s' p i = (is_queued s p i \<and> \<not> (p = peer c \<and> i = m))"
      and ut: "\<forall>k. (unsentTweets s' k = None) = (unsentTweets s k = None)"
      by (simp_all add: q)
    have "\<forall>i p. is_recipient s' i p =
          (is_recipient s i p
           \<or> (js_to_string i = js_to_string m \<and> p = peer c \<and> tweetRecipients s (js_to_string i) \<noteq> None))"
      using Some by (auto simp: is_recipient_def tr)
    moreover have "\<forall>k. (tweetRecipients s' k = None) = (tweetRecipients s k = None)"
      using Some by (auto simp: tr)
    ultimately show ?thesis using b qu ut by blast
  qed
qed

lemma bulk_ack_each_plain:
  assumes "\<forall>m \<in> set ids. \<not> inherited (tweetRecipients s) (js_to_string m)"
    and "\<not> inherited (unsentTweets s) (peer c)"
  shows "\<exists>s'. for_each (bulk_ack_one c) ids s = (None, s')
     \<and> (\<forall>i p. is_recipient s' i p =
          (is_recipient s i p
           \<or> (js_to_string i \<in> js_to_string ` set ids \<and> p = peer c
              \<and> tweetRecipients s (js_to_string i) \<noteq> None)))
     \<and> (\<forall>k. (tweetRecipients s' k = None) = (tweetRecipients s k = None))
     \<and> (\<forall>p i. is_queued s' p i = (is_queued s p i \<and> \<not> (p = peer c \<and> i \<in> set ids)))"
  using assms
proof (induction ids arbitrary: s)
  case Nil
  show ?case by simp
next
  case (Cons m ids)
  from Cons.prems have hm: "\<not> inherited (tweetRecipients s) (js_to_string m)" by simp
  obtain s1 where
    one: "bulk_ack_one c m s = (None, s1)"
    and rec1: "\<forall>i p. is_recipient s1 i p =
          (is_recipient s i p
           \<or> (js_to_string i = js_to_string m \<and> p = peer c \<and> tweetRecipients s (js_to_string i) \<noteq> None))"
    and ent1: "\<forall>k. (tweetRecipients s1 k = None) = (tweetRecipients s k = None)"
    and que1: "\<forall>p i. is_queued s1 p i = (is_queued s p i \<and> \<not> (p = peer c \<and> i = m))"
    and uns1: "\<forall>k. (unsentTweets s1 k = None) = (unsentTweets s k = None)"
    using bulk_ack_one_plain [OF hm Cons.prems(2)] by (elim exE conjE) (rule that; assumption)
  from Cons.prems(1) ent1 have h1: "\<forall>m \<in> set ids. \<not> inherited (tweetRecipients s1) (js_to_string m)"
    by (simp add: inherited_def)
  from Cons.prems(2) uns1 have h2: "\<not> inherited (unsentTweets s1) (peer c)"
    by (simp add: inherited_def)
  obtain s' where
    rest: "for_each (bulk_ack_one c) ids s1 = (None, s')"
    and rec2: "\<forall>i p. is_recipient s' i p =
          (is_recipient s1 i p
           \<or> (js_to_string i \<in> js_to_string ` set ids \<and> p = peer c
              \<and> tweetRecipients s1 (js_to_string i) \<noteq> None))"
    and ent2: "\<forall>k. (tweetRecipients s' k = None) = (tweetRecipients s1 k = None)"
    and que2: "\<forall>p i. is_queued s' p i = (is_queued s1 p i \<and> \<not> (p = peer c \<and> i \<in> set ids))"
    using Cons.IH [OF h1 h2] by (elim exE conjE) (rule that; assumption)
  from one rest have "for_each (bulk_ack_one c) (m # ids) s = (None, s')" by simp
  moreover have "\<forall>i p. is_recipient s' i p =
          (is_recipient s i p
           \<or> (js_to_string i \<in> js_to_string ` set (m # ids) \<and> p = peer c
              \<and> tweetRecipients s (js_to_string i) \<noteq> None))"
    unfolding rec2 [rule_format] rec1 [rule_format] ent1 [rule_format]
    by (auto simp del: not_None_eq)
  moreover have "\<forall>k. (tweetRecipients s' k = None) = (tweetRecipients s k = None)"
    using ent1 ent2 by simp
  moreover have "\<forall>p i. is_queued s' p i = (is_queued s p i \<and> \<not> (p = peer c \<and> i \<in> set (m # ids)))"
    unfolding que2 [rule_format] que1 [rule_format] by auto
  ultimately show ?case by (intro exI [of _ s'] conjI)
qed

text \<open>
  An acknowledgment that names a member of \<open>Object.prototype\<close> throws in both handlers,
  and in the bulk handler the ids after it are not looked at.
\<close>

lemma ack_of_inherited_name_throws:
  "handleTweetAckMessage (JStr ''constructor'') carol received_hi = (Some TypeError, received_hi)
   \<and> handleBulkTweetAckMessage [JStr ''constructor'', JStr ''m1''] carol received_hi
       = (Some TypeError, received_hi)"
  by (simp add: handleTweetAckMessage_def handleBulkTweetAckMessage_def bulk_ack_one_def
        table_get_def OBJECT_PROTOTYPE_def received_hi_recipients)

text \<open>
  C9, as stated, fails for an acknowledgment that names an id without a recipient-set
  entry: the handler ignores it, so the acking peer is not marked.
\<close>

theorem ack_of_unknown_id_is_ignored:
  "handleTweetAckMessage (JStr ''m9'') bob received_hi = (None, received_hi)
   \<and> \<not> is_recipient (snd (handleTweetAckMessage (JStr ''m9'') bob received_hi)) (JStr ''m9'') ''bob''"
  by (simp add: handleTweetAckMessage_def received_hi_recipients is_recipient_def table_get_def
        OBJECT_PROTOTYPE_def)

text \<open>
  C9, amended. Take a peer \<open>p\<close> and ids that, as keys of the two tables, do not find an
  inherited member of \<open>Object.prototype\<close> (as \<open>constructor\<close> would in a table without
  that entry). A \<open>tweet_ack\<close> from \<open>p\<close> that names a truthy id \<open>m\<close> with a recipient-set
  entry not yet holding \<open>p\<close> returns, adds \<open>p\<close> to that entry and removes \<open>m\<close> from the
  unsent queue of \<open>p\<close>; every other queue stays as it was. A \<open>tweet_ack\<close> that names an
  id without a recipient-set entry returns and changes nothing. A \<open>bulk_tweet_ack\<close> from
  \<open>p\<close> returns, marks \<open>p\<close> as a recipient of each named id that has a recipient-set entry,
  creates no entry, and removes every named id from the unsent queue of \<open>p\<close>. The
  recipient-set entry of an id is the one under its string form.
\<close>

theorem acknowledgments_mark_recipient:
  "(truthy m \<and> tweetRecipients s (js_to_string m) = Some ps \<and> peer c \<notin> set ps
      \<and> \<not> inherited (unsentTweets s) (peer c) \<longrightarrow>
      fst (handleTweetAckMessage m c s) = None
      \<and> tweetRecipients (snd (handleTweetAckMessage m c s))
          = (tweetRecipients s)(js_to_string m \<mapsto> ps @ [peer c])
      \<and> is_recipient (snd (handleTweetAckMessage m c s)) m (peer c)
      \<and> \<not> is_queued (snd (handleTweetAckMessage m c s)) (peer c) m
      \<and> (\<forall>p i. (p, i) \<noteq> (peer c, m) \<longrightarrow>
            is_queued (snd (handleTweetAckMessage m c s)) p i = is_queued s p i))
   \<and> (tweetRecipients s (js_to_string m) = None \<and> \<not> inherited (tweetRecipients s) (js_to_string m) \<longrightarrow>
        handleTweetAckMessage m c s = (None, s))
   \<and> ((\<forall>i \<in> set ids. \<not> inherited (tweetRecipients s) (js_to_string i))
        \<and> \<not> inherited (unsentTweets s) (peer c) \<longrightarrow>
        fst (handleBulkTweetAckMessage ids c s) = None
        \<and> (\<forall>i p. is_recipient (snd (handleBulkTweetAckMessage ids c s)) i p =
              (is_recipient s i p
               \<or> (js_to_string i \<in> js_to_string ` set ids \<and> p = peer c
                  \<and> tweetRecipients s (js_to_string i) \<noteq> None)))
        \<and> (\<forall>k. (tweetRecipients (snd (handleBulkTweetAckMessage ids c s)) k = None)
                 = (tweetRecipients s k = None))
        \<and> (\<forall>p i. is_queued (snd (handleBulkTweetAckMessage ids c s)) p i =
              (is_queued s p i \<and> \<not> (p = peer c \<and> i \<in> set ids))))"
proof (intro conjI impI)
  assume h: "truthy m \<and> tweetRecipients s (js_to_string m) = Some ps \<and> peer c \<notin> set ps
      \<and> \<not> inherited (unsentTweets s) (peer c)"
  let ?s0 = "s\<lparr>tweetRecipients := (tweetRecipients s)(js_to_string m \<mapsto> ps @ [peer c])\<rparr>"
  obtain s1 where
    r: "remove_unsent (peer c) m ?s0 = Inr s1"
    and eq: "handleTweetAckMessage m c s = (None, saveMessageDistributionState s1)"
    using ack_new_recipient [OF h [THEN conjunct1] h [THEN conjunct2, THEN conjunct1]
        h [THEN conjunct2, THEN conjunct2, THEN conjunct1] h [THEN conjunct2, THEN conjunct2, THEN conjunct2]]
    by (elim exE conjE) (rule that; assumption)
  have q: "is_queued ?s0 p i = is_queued s p i" for p i
    by (simp add: is_queued_def)
  note props = remove_unsent_Inr [OF r]
  show "fst (handleTweetAckMessage m c s) = None" by (simp add: eq)
  show "tweetRecipients (snd (handleTweetAckMessage m c s))
          = (tweetRecipients s)(js_to_string m \<mapsto> ps @ [peer c])"
    using props by (simp add: eq)
  then show "is_recipient (snd (handleTweetAckMessage m c s)) m (peer c)"
    by (simp add: is_recipient_def)
  show "\<not> is_queued (snd (handleTweetAckMessage m c s)) (peer c) m"
    using props by (simp add: eq)
  show "\<forall>p i. (p, i) \<noteq> (peer c, m) \<longrightarrow>
            is_queued (snd (handleTweetAckMessage m c s)) p i = is_queued s p i"
    using props by (auto simp: eq q)
next
  assume "tweetRecipients s (js_to_string m) = None \<and> \<not> inherited (tweetRecipients s) (js_to_string m)"
  then show "handleTweetAckMessage m c s = (None, s)" by (simp add: ack_no_entry)
next
  assume h: "(\<forall>i \<in> set ids. \<not> inherited (tweetRecipients s) (js_to_string i))
        \<and> \<not> inherited (unsentTweets s) (peer c)"
  obtain s' where
    each: "for_each (bulk_ack_one c) ids s = (None, s')"
    and rec: "\<forall>i p. is_recipient s' i p =
          (is_recipient s i p
           \<or> (js_to_string i \<in> js_to_string ` set ids \<and> p = peer c
              \<and> tweetRecipients s (js_to_string i) \<noteq> None))"
    and ent: "\<forall>k. (tweetRecipients s' k = None) = (tweetRecipients s k = None)"
    and que: "\<forall>p i. is_queued s' p i = (is_queued s p i \<and> \<not> (p = peer c \<and> i \<in> set ids))"
    using bulk_ack_each_plain [OF h [THEN conjunct1] h [THEN conjunct2]]
    by (elim exE conjE) (rule that; assumption)
  from each have eq: "handleBulkTweetAckMessage ids c s = (None, saveMessageDistributionState s')"
    by (simp add: handleBulkTweetAckMessage_def)
  show "fst (handleBulkTweetAckMessage ids c s) = None" by (simp add: eq)
  show "\<forall>i p. is_recipient (snd (handleBulkTweetAckMessage ids c s)) i p =
              (is_recipient s i p
               \<or> (js_to_string i \<in> js_to_string ` set ids \<and> p = peer c
                  \<and> tweetRecipients s (js_to_string i) \<noteq> None))"
    using rec by (simp add: eq del: not_None_eq)
  show "\<forall>k. (tweetRecipients (snd (handleBulkTweetAckMessage ids c s)) k = None)
                 = (tweetRecipients s k = None)"
    using ent by (simp add: eq)
  show "\<forall>p i. is_queued (snd (handleBulkTweetAckMessage ids c s)) p i =
              (is_queued s p i \<and> \<not> (p = peer c \<and> i \<in> set ids))"
    using que by (simp add: eq)
qed

theorem acknowledgments_mark_recipient_witness:
  "is_queued received_hi ''carol'' (JStr ''m1'')
   \<and> tweetRecipients (snd (handleTweetAckMessage (JStr ''m1'') carol received_hi)) ''m1''
       = Some [''bob'', ''carol'']
   \<and> \<not> is_queued (snd (handleTweetAckMessage (JStr ''m1'') carol received_hi)) ''carol'' (JStr ''m1'')
   \<and> handleTweetAckMessage (JStr ''m9'') carol received_hi = (None, received_hi)
   \<and> fst (handleBulkTweetAckMessage [JStr ''m1''] carol received_hi) = None
   \<and> is_recipient (snd (handleBulkTweetAckMessage [JStr ''m1''] carol received_hi)) (JStr ''m1'') ''carol''
   \<and> \<not> is_queued (snd (handleBulkTweetAckMessage [JStr ''m1''] carol received_hi)) ''carol'' (JStr ''m1'')"
proof -
  have queued: "is_queued received_hi ''carol'' (JStr ''m1'')"
    by (simp add: is_queued_def received_hi_unsent)
  have entry: "truthy (JStr ''m1'') \<and> tweetRecipients received_hi (js_to_string (JStr ''m1'')) = Some [''bob'']
               \<and> peer carol \<notin> set [''bob'']
               \<and> \<not> inherited (unsentTweets received_hi) (peer carol)"
    by (simp add: received_hi_recipients received_hi_unsent carol_def inherited_def)
  have unknown: "tweetRecipients received_hi (js_to_string (JStr ''m9'')) = None
                 \<and> \<not> inherited (tweetRecipients received_hi) (js_to_string (JStr ''m9''))"
    by (simp add: received_hi_recipients inherited_def OBJECT_PROTOTYPE_def)
  have plain: "(\<forall>i \<in> set [JStr ''m1'']. \<not> inherited (tweetRecipients received_hi) (js_to_string i))
               \<and> \<not> inherited (unsentTweets received_hi) (peer carol)"
    by (simp add: received_hi_recipients received_hi_unsent carol_def inherited_def)
  note known = acknowledgments_mark_recipient
    [where s = received_hi and m = "JStr ''m1''" and ps = "[''bob'']" and c = carol
       and ids = "[JStr ''m1'']"]
  note other = acknowledgments_mark_recipient
    [where s = received_hi and m = "JStr ''m9''" and c = carol]
  from known entry
  have a: "tweetRecipients (snd (handleTweetAckMessage (JStr ''m1'') carol received_hi))
          = (tweetRecipients received_hi)(js_to_string (JStr ''m1'') \<mapsto> [''bob''] @ [peer carol])"
    and b: "\<not> is_queued (snd (handleTweetAckMessage (JStr ''m1'') carol received_hi)) (peer carol) (JStr ''m1'')"
    by blast+
  from other unknown
  have c: "handleTweetAckMessage (JStr ''m9'') carol received_hi = (None, received_hi)" by blast
  from known plain
  have d: "fst (handleBulkTweetAckMessage [JStr ''m1''] carol received_hi) = None"
    and e: "\<forall>i p. is_recipient (snd (handleBulkTweetAckMessage [JStr ''m1''] carol received_hi)) i p =
              (is_recipient received_hi i p
               \<or> (js_to_string i \<in> js_to_string ` set [JStr ''m1''] \<and> p = peer carol
                  \<and> tweetRecipients received_hi (js_to_string i) \<noteq> None))"
    and f: "\<forall>p i. is_queued (snd (handleBulkTweetAckMessage [JStr ''m1''] carol received_hi)) p i =
              (is_queued received_hi p i \<and> \<not> (p = peer carol \<and> i \<in> set [JStr ''m1'']))"
    by blast+
  from e have e': "is_recipient (snd (handleBulkTweetAckMessage [JStr ''m1''] carol received_hi)) (JStr ''m1'') ''carol''"
    by (simp add: carol_def received_hi_recipients)
  from f have f': "\<not> is_queued (snd (handleBulkTweetAckMessage [JStr ''m1''] carol received_hi)) ''carol'' (JStr ''m1'')"
    by (simp add: carol_def)
  from a b c d e' f' queued show ?thesis by (simp add: carol_def)
qed

subsection \<open>Catch-up\<close>

lemma collect_missing_plain:
  assumes "\<forall>t \<in> set ts. \<not> inherited (tweetRecipients s) (tweet_key t)"
  shows "\<exists>ids'. collect_missing p s ts ids = Inr ids'
           \<and> set ids' = set ids \<union> {tweet_id t | t. t \<in> set ts \<and> \<not> is_recipient s (tweet_id t) p}"
  using assms
proof (induction ts arbitrary: ids)
  case Nil
  show ?case by simp
next
  case (Cons t ts)
  from Cons.prems have nc: "not_confirmed s (tweet_id t) p = Inr (\<not> is_recipient s (tweet_id t) p)"
    by (simp add: not_confirmed_plain tweet_key_def)
  let ?ids1 = "if \<not> is_recipient s (tweet_id t) p \<and> tweet_id t \<notin> set ids
               then ids @ [tweet_id t] else ids"
  from Cons.prems have "\<forall>t \<in> set ts. \<not> inherited (tweetRecipients s) (tweet_key t)" by simp
  from Cons.IH [OF this, of ?ids1] obtain ids' where
    r: "collect_missing p s ts ?ids1 = Inr ids'"
    and e: "set ids' = set ?ids1 \<union> {tweet_id t | t. t \<in> set ts \<and> \<not> is_recipient s (tweet_id t) p}"
    by (elim exE conjE)
  from nc r have "collect_missing p s (t # ts) ids = Inr ids'" by simp
  moreover from e have
    "set ids' = set ids \<union> {tweet_id x | x. x \<in> set (t # ts) \<and> \<not> is_recipient s (tweet_id x) p}"
    by auto
  ultimately show ?case by blast
qed

lemma queued_ids_plain:
  "\<not> inherited (unsentTweets s) p \<Longrightarrow>
   \<exists>q. queued_ids p s = Inr q \<and> set q = {i. is_queued s p i}"
  by (auto simp: queued_ids_def table_get_not_inherited is_queued_def split: option.splits)

lemma set_collect_unsent:
  assumes "\<not> inherited (unsentTweets s) p"
    and "\<forall>t \<in> set (tweets s). \<not> inherited (tweetRecipients s) (tweet_key t)"
  shows "\<exists>ids. collect_unsent p s = Inr ids
     \<and> set ids = {i. is_queued s p i}
                 \<union> {tweet_id t | t. t \<in> set (tweets s) \<and> \<not> is_recipient s (tweet_id t) p}"
proof -
  from queued_ids_plain [OF assms(1)] obtain q where
    q: "queued_ids p s = Inr q" "set q = {i. is_queued s p i}" by (elim exE conjE)
  from collect_missing_plain [OF assms(2), of p q] obtain ids where
    c: "collect_missing p s (tweets s) q = Inr ids"
    and e: "set ids = set q \<union> {tweet_id t | t. t \<in> set (tweets s) \<and> \<not> is_recipient s (tweet_id t) p}"
    by (elim exE conjE)
  from q c have "collect_unsent p s = Inr ids" by (simp add: collect_unsent_def)
  with e q(2) show ?thesis by simp
qed

lemma concat_batches_of: "concat (batches_of ts) = ts"
  by (induction ts rule: batches_of.induct) (subst batches_of.simps, simp)

lemma batches_of_bounds:
  "b \<in> set (batches_of ts) \<Longrightarrow> b \<noteq> [] \<and> length b \<le> BATCH_SIZE"
proof (induction ts rule: batches_of.induct)
  case (1 ts)
  show ?case
  proof (cases "ts = []")
    case True
    with "1.prems" show ?thesis by (subst (asm) batches_of.simps) simp
  next
    case False
    from "1.prems" False have "b = take BATCH_SIZE ts \<or> b \<in> set (batches_of (drop BATCH_SIZE ts))"
      by (subst (asm) batches_of.simps) simp
    then show ?thesis
    proof
      assume "b = take BATCH_SIZE ts"
      with False show ?thesis by (simp add: BATCH_SIZE_def)
    next
      assume "b \<in> set (batches_of (drop BATCH_SIZE ts))"
      with "1.IH" False show ?thesis by simp
    qed
  qed
qed

lemma batches_of_Nil_iff: "(batches_of ts = []) = (ts = [])"
  by (subst batches_of.simps) simp

text \<open>What \<open>sendSelectiveTweets\<close> schedules, without the early return.\<close>

lemma sendSelectiveTweets_eq:
  assumes "\<not> inherited (unsentTweets s) (peer c)"
    and "\<forall>t \<in> set (tweets s). \<not> inherited (tweetRecipients s) (tweet_key t)"
  shows "sendSelectiveTweets c s =
     Inr (batches_of (filter (\<lambda>t. is_queued s (peer c) (tweet_id t)
                                   \<or> \<not> is_recipient s (tweet_id t) (peer c))
                             (tweets s)))"
proof -
  from set_collect_unsent [OF assms] obtain ids where
    c: "collect_unsent (peer c) s = Inr ids"
    and e: "set ids = {i. is_queued s (peer c) i}
                 \<union> {tweet_id t | t. t \<in> set (tweets s) \<and> \<not> is_recipient s (tweet_id t) (peer c)}"
    by (elim exE conjE)
  have f: "filter (\<lambda>tweet. tweet_id tweet \<in> set ids) (tweets s)
         = filter (\<lambda>t. is_queued s (peer c) (tweet_id t) \<or> \<not> is_recipient s (tweet_id t) (peer c))
                  (tweets s)"
    by (rule filter_cong) (auto simp: e)
  show ?thesis
  proof (cases "ids = []")
    case True
    then have "filter (\<lambda>tweet. tweet_id tweet \<in> set ids) (tweets s) = []" by simp
    with True f c show ?thesis
      by (simp add: sendSelectiveTweets_def batches_of_Nil_iff [THEN iffD2])
  next
    case False
    with f c show ?thesis by (simp add: sendSelectiveTweets_def)
  qed
qed

lemma mark_sent_plain:
  assumes "\<not> inherited (tweetRecipients s) (tweet_key t)" and "\<not> inherited (unsentTweets s) p"
  shows "\<exists>s'. mark_sent p t s = (None, s')
     \<and> (\<forall>i q. is_recipient s' i q = (is_recipient s i q \<or> (js_to_string i = tweet_key t \<and> q = p)))
     \<and> (\<forall>q i. is_queued s' q i = (is_queued s q i \<and> \<not> (q = p \<and> i = tweet_id t)))
     \<and> (\<forall>k. tweetRecipients s' k = None \<longrightarrow> tweetRecipients s k = None)
     \<and> (\<forall>k. (unsentTweets s' k = None) = (unsentTweets s k = None))
     \<and> effects s' = effects s \<and> suspended s' = suspended s"
proof -
  from assms(1) add_recipient_returns [of s "tweet_id t" p] obtain s1 where
    a: "add_recipient (tweet_id t) p s = Inr s1" by (auto simp: tweet_key_def)
  note pa = add_recipient_Inr [OF a]
  from pa assms(2) have "\<not> inherited (unsentTweets s1) p" by simp
  from remove_unsent_returns [OF this] obtain s' where
    r: "remove_unsent p (tweet_id t) s1 = Inr s'" by blast
  note pr = remove_unsent_Inr [OF r]
  from a r have "mark_sent p t s = (None, s')" by (simp add: mark_sent_def attempt_def)
  moreover have "\<forall>i q. is_recipient s' i q = (is_recipient s i q \<or> (js_to_string i = tweet_key t \<and> q = p))"
    using pa pr by (simp add: is_recipient_def tweet_key_def)
  moreover have "\<forall>q i. is_queued s' q i = (is_queued s q i \<and> \<not> (q = p \<and> i = tweet_id t))"
    using pa pr by (simp add: is_queued_def)
  moreover have "\<forall>k. tweetRecipients s' k = None \<longrightarrow> tweetRecipients s k = None"
    using pa pr by simp
  moreover have "\<forall>k. (unsentTweets s' k = None) = (unsentTweets s k = None)"
    using pa pr by simp
  moreover have "effects s' = effects s" using pa pr by simp
  moreover have "suspended s' = suspended s" using pa pr by simp
  ultimately show ?thesis by (intro exI [of _ s'] conjI)
qed

lemma mark_each_plain:
  assumes "\<forall>t \<in> set b. \<not> inherited (tweetRecipients s) (tweet_key t)"
    and "\<not> inherited (unsentTweets s) p"
  shows "\<exists>s'. for_each (mark_sent p) b s = (None, s')
     \<and> (\<forall>i q. is_recipient s' i q = (is_recipient s i q \<or> (js_to_string i \<in> tweet_key ` set b \<and> q = p)))
     \<and> (\<forall>q i. is_queued s' q i = (is_queued s q i \<and> \<not> (q = p \<and> i \<in> tweet_id ` set b)))
     \<and> effects s' = effects s \<and> suspended s' = suspended s"
  using assms
proof (induction b arbitrary: s)
  case Nil
  show ?case by simp
next
  case (Cons t b)
  from Cons.prems have ht: "\<not> inherited (tweetRecipients s) (tweet_key t)" by simp
  obtain s1 where
    one: "mark_sent p t s = (None, s1)"
    and rec1: "\<forall>i q. is_recipient s1 i q = (is_recipient s i q \<or> (js_to_string i = tweet_key t \<and> q = p))"
    and que1: "\<forall>q i. is_queued s1 q i = (is_queued s q i \<and> \<not> (q = p \<and> i = tweet_id t))"
    and ent1: "\<forall>k. tweetRecipients s1 k = None \<longrightarrow> tweetRecipients s k = None"
    and uns1: "\<forall>k. (unsentTweets s1 k = None) = (unsentTweets s k = None)"
    and eff1: "effects s1 = effects s" and sus1: "suspended s1 = suspended s"
    using mark_sent_plain [OF ht Cons.prems(2)] by (elim exE conjE) (rule that; assumption)
  have "inherited (tweetRecipients s1) k \<Longrightarrow> inherited (tweetRecipients s) k" for k
    using ent1 by (simp add: inherited_def)
  with Cons.prems(1) have h1: "\<forall>t \<in> set b. \<not> inherited (tweetRecipients s1) (tweet_key t)"
    by auto
  from Cons.prems(2) uns1 have h2: "\<not> inherited (unsentTweets s1) p"
    by (simp add: inherited_def)
  obtain s' where
    rest: "for_each (mark_sent p) b s1 = (None, s')"
    and rec2: "\<forall>i q. is_recipient s' i q = (is_recipient s1 i q \<or> (js_to_string i \<in> tweet_key ` set b \<and> q = p))"
    and que2: "\<forall>q i. is_queued s' q i = (is_queued s1 q i \<and> \<not> (q = p \<and> i \<in> tweet_id ` set b))"
    and eff2: "effects s' = effects s1" and sus2: "suspended s' = suspended s1"
    using Cons.IH [OF h1 h2] by (elim exE conjE) (rule that; assumption)
  from one rest have "for_each (mark_sent p) (t # b) s = (None, s')" by simp
  moreover have "\<forall>i q. is_recipient s' i q =
       (is_recipient s i q \<or> (js_to_string i \<in> tweet_key ` set (t # b) \<and> q = p))"
    unfolding rec2 [rule_format] rec1 [rule_format] by auto
  moreover have "\<forall>q i. is_queued s' q i = (is_queued s q i \<and> \<not> (q = p \<and> i \<in> tweet_id ` set (t # b)))"
    unfolding que2 [rule_format] que1 [rule_format] by auto
  moreover have "effects s' = effects s" using eff1 eff2 by simp
  moreover have "suspended s' = suspended s" using sus1 sus2 by simp
  ultimately show ?case by (intro exI [of _ s'] conjI)
qed

lemma keep_unsent_plain:
  assumes "\<not> inherited (unsentTweets s) p"
  shows "\<exists>s'. keep_unsent p t s = (None, s')
     \<and> (\<forall>q i. is_queued s' q i = (is_queued s q i \<or> (q = p \<and> i = tweet_id t)))
     \<and> tweetRecipients s' = tweetRecipients s
     \<and> (\<forall>k. unsentTweets s' k = None \<longrightarrow> unsentTweets s k = None)
     \<and> effects s' = effects s \<and> suspended s' = suspended s"
proof -
  from add_unsent_returns [OF assms] obtain s' where
    a: "add_unsent p (tweet_id t) s = Inr s'" by blast
  note pa = add_unsent_Inr [OF a]
  from a have "keep_unsent p t s = (None, s')" by (simp add: keep_unsent_def attempt_def)
  moreover have "\<forall>q i. is_queued s' q i = (is_queued s q i \<or> (q = p \<and> i = tweet_id t))"
    using pa by simp
  moreover have "tweetRecipients s' = tweetRecipients s" using pa by simp
  moreover have "\<forall>k. unsentTweets s' k = None \<longrightarrow> unsentTweets s k = None" using pa by simp
  moreover have "effects s' = effects s" using pa by simp
  moreover have "suspended s' = suspended s" using pa by simp
  ultimately show ?thesis by (intro exI [of _ s'] conjI)
qed

lemma keep_each_plain:
  assumes "\<not> inherited (unsentTweets s) p"
  shows "\<exists>s'. for_each (keep_unsent p) b s = (None, s')
     \<and> (\<forall>q i. is_queued s' q i = (is_queued s q i \<or> (q = p \<and> i \<in> tweet_id ` set b)))
     \<and> tweetRecipients s' = tweetRecipients s
     \<and> effects s' = effects s \<and> suspended s' = suspended s"
  using assms
proof (induction b arbitrary: s)
  case Nil
  show ?case by simp
next
  case (Cons t b)
  obtain s1 where
    one: "keep_unsent p t s = (None, s1)"
    and que1: "\<forall>q i. is_queued s1 q i = (is_queued s q i \<or> (q = p \<and> i = tweet_id t))"
    and rec1: "tweetRecipients s1 = tweetRecipients s"
    and uns1: "\<forall>k. unsentTweets s1 k = None \<longrightarrow> unsentTweets s k = None"
    and eff1: "effects s1 = effects s" and sus1: "suspended s1 = suspended s"
    using keep_unsent_plain [OF Cons.prems, of t] by (elim exE conjE) (rule that; assumption)
  from Cons.prems uns1 have h: "\<not> inherited (unsentTweets s1) p"
    by (auto simp: inherited_def)
  obtain s' where
    rest: "for_each (keep_unsent p) b s1 = (None, s')"
    and que2: "\<forall>q i. is_queued s' q i = (is_queued s1 q i \<or> (q = p \<and> i \<in> tweet_id ` set b))"
    and rec2: "tweetRecipients s' = tweetRecipients s1"
    and eff2: "effects s' = effects s1" and sus2: "suspended s' = suspended s1"
    using Cons.IH [OF h] by (elim exE conjE) (rule that; assumption)
  from one rest have "for_each (keep_unsent p) (t # b) s = (None, s')" by simp
  moreover have "\<forall>q i. is_queued s' q i = (is_queued s q i \<or> (q = p \<and> i \<in> tweet_id ` set (t # b)))"
    unfolding que2 [rule_format] que1 [rule_format] by auto
  moreover have "tweetRecipients s' = tweetRecipients s" using rec1 rec2 by simp
  moreover have "effects s' = effects s" using eff1 eff2 by simp
  moreover have "suspended s' = suspended s" using sus1 sus2 by simp
  ultimately show ?case by (intro exI [of _ s'] conjI)
qed

lemma send_batch_sent:
  assumes "sendable c" "\<not> inherited (unsentTweets s) (peer c)"
    and "\<forall>t \<in> set b. \<not> inherited (tweetRecipients s) (tweet_key t)"
  shows "fst (send_batch c b s) = None
     \<and> (\<forall>t \<in> set b. is_recipient (snd (send_batch c b s)) (tweet_id t) (peer c)
                    \<and> \<not> is_queued (snd (send_batch c b s)) (peer c) (tweet_id t))
     \<and> effects (snd (send_batch c b s)) = effects s @ [Sent (peer c) (AllTweets b), Save TWEET_RECIPIENTS]"
proof -
  let ?s0 = "log_effects [Sent (peer c) (AllTweets b)] s"
  from assms have h1: "\<forall>t \<in> set b. \<not> inherited (tweetRecipients ?s0) (tweet_key t)"
    and h2: "\<not> inherited (unsentTweets ?s0) (peer c)" by simp_all
  obtain s' where
    each: "for_each (mark_sent (peer c)) b ?s0 = (None, s')"
    and rec: "\<forall>i q. is_recipient s' i q =
                (is_recipient ?s0 i q \<or> (js_to_string i \<in> tweet_key ` set b \<and> q = peer c))"
    and que: "\<forall>q i. is_queued s' q i = (is_queued ?s0 q i \<and> \<not> (q = peer c \<and> i \<in> tweet_id ` set b))"
    and eff: "effects s' = effects ?s0" and sus: "suspended s' = suspended ?s0"
    using mark_each_plain [OF h1 h2] by (elim exE conjE) (rule that; assumption)
  from assms(1) each have eq: "send_batch c b s = (None, saveMessageDistributionState s')"
    by (simp add: send_batch_def)
  show ?thesis
    unfolding eq using rec que eff by (simp add: tweet_key_def)
qed

lemma send_batch_failed:
  assumes "\<not> sendable c" "\<not> inherited (unsentTweets s) (peer c)"
  shows "fst (send_batch c b s) = None
     \<and> (\<forall>t \<in> set b. is_queued (snd (send_batch c b s)) (peer c) (tweet_id t))
     \<and> effects (snd (send_batch c b s)) = effects s @ [SendFailed (peer c) (AllTweets b), Save TWEET_RECIPIENTS]"
proof -
  let ?s0 = "log_effects [SendFailed (peer c) (AllTweets b)] s"
  from assms have h: "\<not> inherited (unsentTweets ?s0) (peer c)" by simp
  obtain s' where
    each: "for_each (keep_unsent (peer c)) b ?s0 = (None, s')"
    and que: "\<forall>q i. is_queued s' q i = (is_queued ?s0 q i \<or> (q = peer c \<and> i \<in> tweet_id ` set b))"
    and rec: "tweetRecipients s' = tweetRecipients ?s0"
    and eff: "effects s' = effects ?s0" and sus: "suspended s' = suspended ?s0"
    using keep_each_plain [OF h, of b] by (elim exE conjE) (rule that; assumption)
  from assms(1) each have eq: "send_batch c b s = (None, saveMessageDistributionState s')"
    by (simp add: send_batch_def)
  show ?thesis
    unfolding eq using que eff by simp
qed

text \<open>
  The callback of a new session returns, and so starts the timer of the catch-up, when no
  key finds an inherited member; it changes neither the log nor the recipient sets.
\<close>

lemma queue_missing_plain:
  assumes "\<not> inherited (tweetRecipients s) (tweet_key t)" and "\<not> inherited (unsentTweets s) p"
  shows "\<exists>s'. queue_missing p t s = (None, s') \<and> tweetRecipients s' = tweetRecipients s
     \<and> (\<forall>k. unsentTweets s' k = None \<longrightarrow> unsentTweets s k = None)"
proof (cases "is_recipient s (tweet_id t) p")
  case True
  with assms(1) have "queue_missing p t s = (None, s)"
    by (simp add: queue_missing_def not_confirmed_plain tweet_key_def)
  then show ?thesis by simp
next
  case False
  from add_unsent_returns [OF assms(2)] obtain s' where
    a: "add_unsent p (tweet_id t) s = Inr s'" by blast
  with False assms(1) have "queue_missing p t s = (None, s')"
    by (simp add: queue_missing_def not_confirmed_plain tweet_key_def attempt_def)
  with add_unsent_Inr [OF a] show ?thesis by simp
qed

lemma queue_each_plain:
  assumes "\<forall>t \<in> set ts. \<not> inherited (tweetRecipients s) (tweet_key t)"
    and "\<not> inherited (unsentTweets s) p"
  shows "\<exists>s'. for_each (queue_missing p) ts s = (None, s')"
  using assms
proof (induction ts arbitrary: s)
  case Nil
  show ?case by simp
next
  case (Cons t ts)
  from Cons.prems have ht: "\<not> inherited (tweetRecipients s) (tweet_key t)" by simp
  obtain s1 where
    one: "queue_missing p t s = (None, s1)" and rec1: "tweetRecipients s1 = tweetRecipients s"
    and uns1: "\<forall>k. unsentTweets s1 k = None \<longrightarrow> unsentTweets s k = None"
    using queue_missing_plain [OF ht Cons.prems(2)] by (elim exE conjE) (rule that; assumption)
  from Cons.prems(1) rec1 have h1: "\<forall>t \<in> set ts. \<not> inherited (tweetRecipients s1) (tweet_key t)"
    by simp
  from Cons.prems(2) uns1 have h2: "\<not> inherited (unsentTweets s1) p"
    by (auto simp: inherited_def)
  from Cons.IH [OF h1 h2] obtain s' where "for_each (queue_missing p) ts s1 = (None, s')" by blast
  with one show ?case by simp
qed

lemma peer_connected_returns:
  assumes "\<forall>t \<in> set (tweets s). \<not> inherited (tweetRecipients s) (tweet_key t)"
    and "\<not> inherited (unsentTweets s) (peer c)"
  shows "fst (peer_connected c s) = None"
proof -
  let ?s1 = "case table_get (unsentTweets s) (peer c) of
                  Missing \<Rightarrow> s\<lparr>unsentTweets := (unsentTweets s)(peer c \<mapsto> [])\<rparr>
                | Own q \<Rightarrow> s
                | Inherited len \<Rightarrow> s"
  have t: "tweets ?s1 = tweets s" and r: "tweetRecipients ?s1 = tweetRecipients s"
    by (simp_all split: found.splits)
  have u: "\<not> inherited (unsentTweets ?s1) (peer c)"
    using assms(2) by (auto simp: inherited_def split: found.splits)
  from assms(1) t r have "\<forall>t \<in> set (tweets ?s1). \<not> inherited (tweetRecipients ?s1) (tweet_key t)"
    by simp
  from queue_each_plain [OF this u] obtain s' where
    "for_each (queue_missing (peer c)) (tweets ?s1) ?s1 = (None, s')" by blast
  then show ?thesis by (simp add: peer_connected_def Let_def)
qed

text \<open>
  Once a message whose id names a member of \<open>Object.prototype\<close> is in the log, the
  callback of a new session and \<open>sendSelectiveTweets\<close> both throw, and no batch is
  scheduled for any peer.
\<close>

lemma catch_up_throws_on_inherited_name:
  "tweets (run ''me'' [RecvTweet 2000 msg_constructor bob])
     = [[(''username'', JStr ''alice''), (''content'', JStr ''hi''),
         (''timestamp'', JNum 1000), (''id'', JStr ''constructor'')]]
   \<and> fst (peer_connected carol (run ''me'' [RecvTweet 2000 msg_constructor bob])) = Some TypeError
   \<and> sendSelectiveTweets carol (run ''me'' [RecvTweet 2000 msg_constructor bob]) = Inl TypeError"
  by (simp add: tm_eval sample_defs sendSelectiveTweets_def collect_unsent_def queued_ids_def)

text \<open>
  C6, as stated, fails when the unsent queue of the peer holds the id of a message that is
  no longer in the log: after the node received \<open>m1\<close>, carol connected and \<open>m1\<close> was
  deleted, \<open>m1\<close> is in carol's unsent queue, and the catch-up for carol sends nothing.
\<close>

theorem queued_id_of_deleted_message_is_not_sent:
  "is_queued (snd (deleteTweet (JStr ''m1'') received_hi)) ''carol'' (JStr ''m1'')
   \<and> sendSelectiveTweets carol (snd (deleteTweet (JStr ''m1'') received_hi)) = Inr []"
proof -
  have u: "unsentTweets (snd (deleteTweet (JStr ''m1'') received_hi)) = [''carol'' \<mapsto> [JStr ''m1'']]"
    by (simp add: deleteTweet_tables received_hi_unsent)
  have t: "tweets (snd (deleteTweet (JStr ''m1'') received_hi)) = []"
    by (simp add: deleteTweet_tweets received_hi_tweets tweet_id_def get_prop_def)
  from u t show ?thesis
    by (simp add: is_queued_def sendSelectiveTweets_def collect_unsent_def queued_ids_def carol_def
          batches_of_Nil_iff)
qed

text \<open>
  C6, amended. Take a peer \<open>p\<close> and stored messages whose keys do not find an inherited
  member of \<open>Object.prototype\<close> in the two tables. When a session to \<open>p\<close> opens, the
  callback returns, and the messages sent as catch-up are the stored messages whose id is
  in the unsent queue of \<open>p\<close> or whose recipient set does not contain \<open>p\<close>, each once and
  in the order of the log, cut into batches of at most \<open>BATCH_SIZE\<close> messages, none
  empty; a peer that is confirmed for every stored message and has no stored message in its
  unsent queue is sent no batch. When a batch is sent (on whatever state the engine is in by
  then, its keys again not finding an inherited member), a successful send puts \<open>p\<close> into
  the recipient set of each message of the batch and takes each out of the unsent queue of
  \<open>p\<close>, and a failed send leaves every message of the batch in the unsent queue of \<open>p\<close>.
\<close>

theorem catch_up_sends_missing_stored_messages:
  "(\<not> inherited (unsentTweets s) (peer c)
      \<and> (\<forall>t \<in> set (tweets s). \<not> inherited (tweetRecipients s) (tweet_key t)) \<longrightarrow>
      fst (peer_connected c s) = None
      \<and> (\<exists>batches. sendSelectiveTweets c s = Inr batches
           \<and> concat batches =
               filter (\<lambda>t. is_queued s (peer c) (tweet_id t) \<or> \<not> is_recipient s (tweet_id t) (peer c))
                      (tweets s)
           \<and> set (map tweet_id (concat batches)) =
               {tweet_id t | t. t \<in> set (tweets s) \<and>
                  (is_queued s (peer c) (tweet_id t) \<or> \<not> is_recipient s (tweet_id t) (peer c))}
           \<and> (\<forall>b \<in> set batches. b \<noteq> [] \<and> length b \<le> BATCH_SIZE)
           \<and> ((\<forall>t \<in> set (tweets s). is_recipient s (tweet_id t) (peer c)
                                     \<and> \<not> is_queued s (peer c) (tweet_id t))
                \<longrightarrow> batches = [])))
   \<and> (sendable c \<and> \<not> inherited (unsentTweets s') (peer c)
        \<and> (\<forall>t \<in> set batch. \<not> inherited (tweetRecipients s') (tweet_key t)) \<longrightarrow>
        fst (send_batch c batch s') = None
        \<and> (\<forall>t \<in> set batch. is_recipient (snd (send_batch c batch s')) (tweet_id t) (peer c)
                        \<and> \<not> is_queued (snd (send_batch c batch s')) (peer c) (tweet_id t))
        \<and> effects (snd (send_batch c batch s'))
            = effects s' @ [Sent (peer c) (AllTweets batch), Save TWEET_RECIPIENTS])
   \<and> (\<not> sendable c \<and> \<not> inherited (unsentTweets s') (peer c) \<longrightarrow>
        fst (send_batch c batch s') = None
        \<and> (\<forall>t \<in> set batch. is_queued (snd (send_batch c batch s')) (peer c) (tweet_id t))
        \<and> effects (snd (send_batch c batch s'))
            = effects s' @ [SendFailed (peer c) (AllTweets batch), Save TWEET_RECIPIENTS])"
proof (intro conjI impI)
  let ?missing = "\<lambda>t. is_queued s (peer c) (tweet_id t) \<or> \<not> is_recipient s (tweet_id t) (peer c)"
  let ?b = "batches_of (filter ?missing (tweets s))"
  assume h: "\<not> inherited (unsentTweets s) (peer c)
      \<and> (\<forall>t \<in> set (tweets s). \<not> inherited (tweetRecipients s) (tweet_key t))"
  show "fst (peer_connected c s) = None"
    by (rule peer_connected_returns [OF h [THEN conjunct2] h [THEN conjunct1]])
  have eq: "sendSelectiveTweets c s = Inr ?b"
    by (rule sendSelectiveTweets_eq [OF h [THEN conjunct1] h [THEN conjunct2]])
  have a: "concat ?b = filter ?missing (tweets s)" by (rule concat_batches_of)
  have b: "set (map tweet_id (concat ?b)) = {tweet_id t | t. t \<in> set (tweets s) \<and> ?missing t}"
    unfolding a by auto
  have c: "\<forall>b \<in> set ?b. b \<noteq> [] \<and> length b \<le> BATCH_SIZE"
    using batches_of_bounds by blast
  have d: "(\<forall>t \<in> set (tweets s). is_recipient s (tweet_id t) (peer c)
                                     \<and> \<not> is_queued s (peer c) (tweet_id t)) \<longrightarrow> ?b = []"
  proof
    assume "\<forall>t \<in> set (tweets s). is_recipient s (tweet_id t) (peer c)
                                     \<and> \<not> is_queued s (peer c) (tweet_id t)"
    then have "filter ?missing (tweets s) = []" by (simp add: filter_empty_conv)
    then show "?b = []" by (simp add: batches_of_Nil_iff)
  qed
  from eq a b c d
  show "\<exists>batches. sendSelectiveTweets c s = Inr batches
           \<and> concat batches = filter ?missing (tweets s)
           \<and> set (map tweet_id (concat batches)) =
               {tweet_id t | t. t \<in> set (tweets s) \<and> ?missing t}
           \<and> (\<forall>b \<in> set batches. b \<noteq> [] \<and> length b \<le> BATCH_SIZE)
           \<and> ((\<forall>t \<in> set (tweets s). is_recipient s (tweet_id t) (peer c)
                                     \<and> \<not> is_queued s (peer c) (tweet_id t))
                \<longrightarrow> batches = [])"
    by (intro exI [of _ ?b] conjI)
next
  assume h: "sendable c \<and> \<not> inherited (unsentTweets s') (peer c)
        \<and> (\<forall>t \<in> set batch. \<not> inherited (tweetRecipients s') (tweet_key t))"
  note r = send_batch_sent [OF h [THEN conjunct1] h [THEN conjunct2, THEN conjunct1]
      h [THEN conjunct2, THEN conjunct2]]
  from r show "fst (send_batch c batch s') = None" by (rule conjunct1)
  from r show "\<forall>t \<in> set batch. is_recipient (snd (send_batch c batch s')) (tweet_id t) (peer c)
                        \<and> \<not> is_queued (snd (send_batch c batch s')) (peer c) (tweet_id t)"
    by (rule conjunct2 [THEN conjunct1])
  from r show "effects (snd (send_batch c batch s'))
            = effects s' @ [Sent (peer c) (AllTweets batch), Save TWEET_RECIPIENTS]"
    by (rule conjunct2 [THEN conjunct2])
next
  assume h: "\<not> sendable c \<and> \<not> inherited (unsentTweets s') (peer c)"
  note r = send_batch_failed [OF h [THEN conjunct1] h [THEN conjunct2], of batch]
  from r show "fst (send_batch c batch s') = None" by (rule conjunct1)
  from r show "\<forall>t \<in> set batch. is_queued (snd (send_batch c batch s')) (peer c) (tweet_id t)"
    by (rule conjunct2 [THEN conjunct1])
  from r show "effects (snd (send_batch c batch s'))
            = effects s' @ [SendFailed (peer c) (AllTweets batch), Save TWEET_RECIPIENTS]"
    by (rule conjunct2 [THEN conjunct2])
qed

theorem catch_up_sends_missing_stored_messages_witness:
  "sendSelectiveTweets carol received_hi = Inr [tweets received_hi]
   \<and> sendSelectiveTweets bob received_hi = Inr []
   \<and> is_recipient (snd (send_batch carol (tweets received_hi) received_hi)) (JStr ''m1'') ''carol''
   \<and> \<not> is_queued (snd (send_batch carol (tweets received_hi) received_hi)) ''carol'' (JStr ''m1'')
   \<and> is_queued (snd (send_batch bob_dead (tweets received_hi) received_hi)) ''bob'' (JStr ''m1'')"
proof -
  have keys: "\<forall>t \<in> set (tweets received_hi). \<not> inherited (tweetRecipients received_hi) (tweet_key t)"
    by (simp add: received_hi_tweets received_hi_recipients inherited_def
          tweet_key_def tweet_id_def get_prop_def)
  have pc: "\<not> inherited (unsentTweets received_hi) (peer carol)"
    by (simp add: received_hi_unsent inherited_def carol_def)
  have pb: "\<not> inherited (unsentTweets received_hi) (peer bob)"
    by (simp add: received_hi_unsent inherited_def bob_def OBJECT_PROTOTYPE_def)
  have pd: "\<not> inherited (unsentTweets received_hi) (peer bob_dead)"
    by (simp add: received_hi_unsent inherited_def bob_dead_def OBJECT_PROTOTYPE_def)
  have plan: "concat [tweets received_hi] =
      filter (\<lambda>t. is_queued received_hi (peer carol) (tweet_id t)
                   \<or> \<not> is_recipient received_hi (tweet_id t) (peer carol)) (tweets received_hi)"
    by (simp add: received_hi_tweets received_hi_recipients
          received_hi_unsent is_queued_def is_recipient_def tweet_id_def get_prop_def carol_def)
  have settled: "\<forall>t \<in> set (tweets received_hi).
      is_recipient received_hi (tweet_id t) (peer bob) \<and> \<not> is_queued received_hi (peer bob) (tweet_id t)"
    by (simp add: received_hi_tweets received_hi_recipients received_hi_unsent is_queued_def
          is_recipient_def tweet_id_def get_prop_def bob_def)
  have live: "sendable carol" and dead: "\<not> sendable bob_dead"
    by (simp_all add: carol_def bob_dead_def)
  note for_bob = catch_up_sends_missing_stored_messages
    [where c = bob and s = received_hi, THEN conjunct1, THEN mp, OF conjI [OF pb keys],
     THEN conjunct2]
  note for_carol = catch_up_sends_missing_stored_messages
    [where c = carol and s = received_hi, THEN conjunct1, THEN mp, OF conjI [OF pc keys],
     THEN conjunct2]
  note sent_carol = catch_up_sends_missing_stored_messages
    [where c = carol and batch = "tweets received_hi" and s' = received_hi,
     THEN conjunct2, THEN conjunct1, THEN mp, OF conjI [OF live conjI [OF pc keys]],
     THEN conjunct2, THEN conjunct1]
  note failed_dead = catch_up_sends_missing_stored_messages
    [where c = bob_dead and batch = "tweets received_hi" and s' = received_hi,
     THEN conjunct2, THEN conjunct2, THEN mp, OF conjI [OF dead pd],
     THEN conjunct2, THEN conjunct1]
  obtain none where
    selb: "sendSelectiveTweets bob received_hi = Inr none"
    and imp: "(\<forall>t \<in> set (tweets received_hi). is_recipient received_hi (tweet_id t) (peer bob)
                 \<and> \<not> is_queued received_hi (peer bob) (tweet_id t)) \<longrightarrow> none = []"
    using for_bob by (elim exE conjE) (rule that; assumption)
  from imp settled have "none = []" by (rule mp)
  with selb have b: "sendSelectiveTweets bob received_hi = Inr []" by simp
  obtain batches where
    sel: "sendSelectiveTweets carol received_hi = Inr batches"
    and cat: "concat batches =
      filter (\<lambda>t. is_queued received_hi (peer carol) (tweet_id t)
                   \<or> \<not> is_recipient received_hi (tweet_id t) (peer carol)) (tweets received_hi)"
    and bounds: "\<forall>b \<in> set batches. b \<noteq> [] \<and> length b \<le> BATCH_SIZE"
    using for_carol by (elim exE conjE) (rule that; assumption)
  from cat plan have one: "concat batches = tweets received_hi" by simp
  have "batches = [tweets received_hi]"
  proof (cases batches)
    case Nil
    with one show ?thesis by (simp add: received_hi_tweets)
  next
    case (Cons x xs)
    with bounds have x: "x \<noteq> []" by simp
    from one Cons have "x @ concat xs = tweets received_hi" by simp
    then have "length (x @ concat xs) = length (tweets received_hi)" by (rule arg_cong)
    then have "length x + length (concat xs) = 1" by (simp add: received_hi_tweets)
    with x have "concat xs = []" by (cases x) simp_all
    moreover from bounds Cons have "\<forall>b \<in> set xs. b \<noteq> []" by simp
    ultimately have "xs = []" by (cases xs) auto
    with one Cons show ?thesis by simp
  qed
  with sel have a: "sendSelectiveTweets carol received_hi = Inr [tweets received_hi]" by simp
  from sent_carol
  have c: "is_recipient (snd (send_batch carol (tweets received_hi) received_hi)) (JStr ''m1'') ''carol''
          \<and> \<not> is_queued (snd (send_batch carol (tweets received_hi) received_hi)) ''carol'' (JStr ''m1'')"
    by (simp add: received_hi_tweets tweet_id_def get_prop_def carol_def)
  from failed_dead
  have d: "is_queued (snd (send_batch bob_dead (tweets received_hi) received_hi)) ''bob'' (JStr ''m1'')"
    by (simp add: received_hi_tweets tweet_id_def get_prop_def bob_dead_def)
  from a b c d show ?thesis by simp
qed

section \<open>Properties of inbound messages\<close>

text \<open>
  C3. \<open>handleTweetMessage\<close> does not validate the message it received but a copy of four
  of its fields (\<open>username\<close>, \<open>content\<close>, \<open>timestamp\<close>, \<open>id\<close>), where
  \<open>handleAllTweetsMessage\<close> validates each message object as it is. So a single message
  with a field outside the recognized schema is stored and acknowledged, while the same
  message object in a batch is dropped; and a single message with a well-shaped
  attachment and no content, which \<open>validateTweet\<close> accepts, is dropped with no
  acknowledgment, because the copy has no attachment. A valid message whose id names a
  member of \<open>Object.prototype\<close> is stored, but the marking of the sender throws, so the
  sender is not marked and no acknowledgment is sent.
\<close>

theorem single_message_is_validated_on_a_copy:
  "''injected'' \<notin> set VALID_TWEET_PROPS
   \<and> tweets (handleTweetMessage 2000 ''me'' msg_injected bob init_state)
       = [[(''username'', JStr ''alice''), (''content'', JStr ''hi''),
           (''timestamp'', JNum 1000), (''id'', JStr ''m1'')]]
   \<and> filter is_send (effects (handleTweetMessage 2000 ''me'' msg_injected bob init_state))
       = [Sent ''bob'' (TweetAck (JStr ''m1''))]
   \<and> tweets (handleAllTweetsMessage 2000 ''me'' [tl msg_injected] bob init_state) = []
   \<and> validateTweet 2000 (tl msg_picture)
   \<and> handleTweetMessage 2000 ''me'' msg_picture bob init_state = init_state
   \<and> tweets (handleTweetMessage 2000 ''me'' msg_constructor bob init_state)
       = [[(''username'', JStr ''alice''), (''content'', JStr ''hi''),
           (''timestamp'', JNum 1000), (''id'', JStr ''constructor'')]]
   \<and> \<not> is_recipient (handleTweetMessage 2000 ''me'' msg_constructor bob init_state)
         (JStr ''constructor'') ''bob''
   \<and> filter is_send (effects (handleTweetMessage 2000 ''me'' msg_constructor bob init_state)) = []"
proof -
  have a: "tweets (handleTweetMessage 2000 ''me'' msg_injected bob init_state)
       = [[(''username'', JStr ''alice''), (''content'', JStr ''hi''),
           (''timestamp'', JNum 1000), (''id'', JStr ''m1'')]]"
    by (simp add: tm_eval sample_defs)
  have b: "filter is_send (effects (handleTweetMessage 2000 ''me'' msg_injected bob init_state))
       = [Sent ''bob'' (TweetAck (JStr ''m1''))]"
    by (simp add: tm_eval sample_defs)
  have c: "tweets (handleAllTweetsMessage 2000 ''me'' [tl msg_injected] bob init_state) = []"
    by (simp add: handleAllTweetsMessage_def receive_one_def tm_eval sample_defs)
  have d: "validateTweet 2000 (tl msg_picture)"
    by (simp add: validateTweet_def get_prop_def sample_defs VALID_TWEET_PROPS_def
          MAX_TWEET_LENGTH_def)
  have e: "handleTweetMessage 2000 ''me'' msg_picture bob init_state = init_state"
    by (simp add: handleTweetMessage_def tweetData_of_def validateTweet_def get_prop_def
          sample_defs)
  have f: "tweets (handleTweetMessage 2000 ''me'' msg_constructor bob init_state)
       = [[(''username'', JStr ''alice''), (''content'', JStr ''hi''),
           (''timestamp'', JNum 1000), (''id'', JStr ''constructor'')]]"
    by (simp add: tm_eval sample_defs)
  have g: "\<not> is_recipient (handleTweetMessage 2000 ''me'' msg_constructor bob init_state)
         (JStr ''constructor'') ''bob''"
    by (simp add: tm_eval sample_defs)
  have h: "filter is_send (effects (handleTweetMessage 2000 ''me'' msg_constructor bob init_state)) = []"
    by (simp add: tm_eval sample_defs)
  from a b c d e f g h show ?thesis by (simp add: VALID_TWEET_PROPS_def)
qed

section \<open>Properties of message creation\<close>

subsection \<open>Generated ids\<close>

text \<open>
  An id that \<open>generateUniqueId\<close> returns contains a hyphen, so it is not the name of a
  member of \<open>Object.prototype\<close>: as a key it finds an entry of the table or nothing.
\<close>

lemma prototype_names_have_no_hyphen:
  "map_of OBJECT_PROTOTYPE k = Some len \<Longrightarrow> CHR ''-'' \<notin> set k"
  by (auto simp: OBJECT_PROTOTYPE_def split: if_splits)

lemma generateUniqueId_hyphen: "CHR ''-'' \<in> set (generateUniqueId p u c ts)"
  by (simp add: generateUniqueId_def Let_def)

lemma generateUniqueId_plain [simp]: "map_of OBJECT_PROTOTYPE (generateUniqueId p u c ts) = None"
proof (cases "map_of OBJECT_PROTOTYPE (generateUniqueId p u c ts)")
  case None
  then show ?thesis .
next
  case (Some len)
  from prototype_names_have_no_hyphen [OF this] generateUniqueId_hyphen [of p u c ts]
  show ?thesis by simp
qed

lemma generateUniqueId_not_proto [simp]: "generateUniqueId p u c ts \<noteq> ''__proto__''"
proof
  assume "generateUniqueId p u c ts = ''__proto__''"
  with generateUniqueId_hyphen [of p u c ts] show False by simp
qed

subsection \<open>The broadcast\<close>

lemma for_each_Cons_None:
  "for_each f (x # xs) s = (None, s') \<Longrightarrow>
   \<exists>s1. f x s = (None, s1) \<and> for_each f xs s1 = (None, s')"
  by (cases "f x s") (auto split: option.splits)

text \<open>The ways one round of the broadcast returns.\<close>

lemma broadcast_one_None:
  assumes r: "broadcast_one i d c s = (None, s1)"
    and plain: "map_of OBJECT_PROTOTYPE (js_to_string i) = None"
  obtains
    (a) "sendable c" "tweetRecipients s (js_to_string i) = None"
        "s1 = log_effects [Sent (peer c) (Tweet d)] s"
  | (b) ps where "sendable c" "tweetRecipients s (js_to_string i) = Some ps" "peer c \<in> set ps"
        "s1 = log_effects [Sent (peer c) (Tweet d)] s"
  | (c) ps where "sendable c" "tweetRecipients s (js_to_string i) = Some ps" "peer c \<notin> set ps"
        "remove_unsent (peer c) i
           ((log_effects [Sent (peer c) (Tweet d)] s)
              \<lparr>tweetRecipients := (tweetRecipients s)(js_to_string i \<mapsto> ps @ [peer c])\<rparr>) = Inr s1"
  | (d) "\<not> sendable c"
        "add_unsent (peer c) i (log_effects [SendFailed (peer c) (Tweet d)] s) = Inr s1"
proof (cases "sendable c")
  case False
  with r have "add_unsent (peer c) i (log_effects [SendFailed (peer c) (Tweet d)] s) = Inr s1"
    by (auto simp: broadcast_one_def attempt_def split: sum.splits)
  with False show ?thesis by (rule d)
next
  case True
  let ?s0 = "log_effects [Sent (peer c) (Tweet d)] s"
  show ?thesis
  proof (cases "tweetRecipients s (js_to_string i)")
    case None
    with plain have "broadcast_mark i c ?s0 = (None, ?s0)"
      by (simp add: broadcast_mark_def table_get_def)
    with True r have "s1 = ?s0" by (simp add: broadcast_one_def)
    with True None show ?thesis by (rule a)
  next
    case (Some ps)
    show ?thesis
    proof (cases "peer c \<in> set ps")
      case in_ps: True
      with Some have "broadcast_mark i c ?s0 = (None, ?s0)"
        by (simp add: broadcast_mark_def)
      with True r have "s1 = ?s0" by (simp add: broadcast_one_def)
      with True Some in_ps show ?thesis by (rule b)
    next
      case out: False
      let ?s2 = "?s0\<lparr>tweetRecipients := (tweetRecipients s)(js_to_string i \<mapsto> ps @ [peer c])\<rparr>"
      from Some out have m: "broadcast_mark i c ?s0 = attempt (remove_unsent (peer c) i ?s2) ?s2"
        by (simp add: broadcast_mark_def)
      show ?thesis
      proof (cases "remove_unsent (peer c) i ?s2")
        case (Inr s3)
        with m True r have "s1 = s3" by (simp add: broadcast_one_def attempt_def)
        with Inr have "remove_unsent (peer c) i ?s2 = Inr s1" by simp
        with True Some out show ?thesis by (rule c)
      next
        case (Inl e)
        then have "inherited (unsentTweets ?s2) (peer c)"
          using remove_unsent_returns [of ?s2 "peer c" i] by auto
        then have "add_unsent (peer c) i ?s2 = Inl TypeError"
          by (rule add_unsent_throws)
        with m Inl True r show ?thesis by (simp add: broadcast_one_def attempt_def)
      qed
    qed
  qed
qed

lemma broadcast_one_facts:
  assumes r: "broadcast_one i d c s = (None, s1)"
    and plain: "map_of OBJECT_PROTOTYPE (js_to_string i) = None"
  shows "effects s1 = effects s @ [if sendable c then Sent (peer c) (Tweet d)
                                    else SendFailed (peer c) (Tweet d)]"
    and "suspended s1 = suspended s"
    and "\<And>j. j \<noteq> js_to_string i \<Longrightarrow> tweetRecipients s1 j = tweetRecipients s j"
    and "\<And>j. (tweetRecipients s1 j = None) = (tweetRecipients s j = None)"
    and "\<And>ps. tweetRecipients s (js_to_string i) = Some ps \<Longrightarrow> peer c \<in> set ps \<Longrightarrow>
           tweetRecipients s1 (js_to_string i) = Some ps"
    and "\<And>j p. is_recipient s j p \<Longrightarrow> is_recipient s1 j p"
    and "\<And>j p. is_recipient s1 j p \<Longrightarrow>
           is_recipient s j p \<or> (js_to_string j = js_to_string i \<and> p = peer c \<and> sendable c)"
    and "sendable c \<Longrightarrow> tweetRecipients s (js_to_string i) \<noteq> None \<Longrightarrow> is_recipient s1 i (peer c)"
    and "\<And>p j. p \<noteq> peer c \<or> j \<noteq> i \<Longrightarrow> is_queued s1 p j = is_queued s p j"
    and "\<not> sendable c \<Longrightarrow> is_queued s1 (peer c) i"
    and "\<And>p j. sendable c \<Longrightarrow> is_queued s1 p j \<Longrightarrow> is_queued s p j"
proof -
  let ?k = "js_to_string i"
  let ?s0 = "log_effects [Sent (peer c) (Tweet d)] s"
  let ?f0 = "log_effects [SendFailed (peer c) (Tweet d)] s"
  have q0: "is_queued (?s0\<lparr>tweetRecipients := x\<rparr>) p j = is_queued s p j" for x p j
    by (simp add: is_queued_def)
  have r0: "is_recipient (?s0\<lparr>tweetRecipients := x\<rparr>) j p
            = (case x (js_to_string j) of None \<Rightarrow> False | Some ps \<Rightarrow> p \<in> set ps)" for x p j
    by (simp add: is_recipient_def)
  have all: "effects s1 = effects s @ [if sendable c then Sent (peer c) (Tweet d)
                                    else SendFailed (peer c) (Tweet d)]
    \<and> suspended s1 = suspended s
    \<and> (\<forall>j. j \<noteq> ?k \<longrightarrow> tweetRecipients s1 j = tweetRecipients s j)
    \<and> (\<forall>j. (tweetRecipients s1 j = None) = (tweetRecipients s j = None))
    \<and> (\<forall>ps. tweetRecipients s ?k = Some ps \<and> peer c \<in> set ps \<longrightarrow> tweetRecipients s1 ?k = Some ps)
    \<and> (\<forall>j p. is_recipient s j p \<longrightarrow> is_recipient s1 j p)
    \<and> (\<forall>j p. is_recipient s1 j p \<longrightarrow>
           is_recipient s j p \<or> (js_to_string j = ?k \<and> p = peer c \<and> sendable c))
    \<and> (sendable c \<and> tweetRecipients s ?k \<noteq> None \<longrightarrow> is_recipient s1 i (peer c))
    \<and> (\<forall>p j. p \<noteq> peer c \<or> j \<noteq> i \<longrightarrow> is_queued s1 p j = is_queued s p j)
    \<and> (\<not> sendable c \<longrightarrow> is_queued s1 (peer c) i)
    \<and> (sendable c \<longrightarrow> (\<forall>p j. is_queued s1 p j \<longrightarrow> is_queued s p j))"
    using r plain
  proof (cases rule: broadcast_one_None)
    case a
    then show ?thesis by (simp add: is_recipient_def)
  next
    case (b ps)
    then show ?thesis by (simp add: is_recipient_def)
  next
    case (c ps)
    note pr = remove_unsent_Inr [OF c(4)]
    from pr have tr: "tweetRecipients s1 = (tweetRecipients s)(?k \<mapsto> ps @ [peer c])" by simp
    from pr have qu: "\<forall>p j. is_queued s1 p j = (is_queued s p j \<and> \<not> (p = peer c \<and> j = i))"
      by (simp add: q0)
    from pr have ef: "effects s1 = effects s @ [Sent (peer c) (Tweet d)]" by simp
    from pr have su: "suspended s1 = suspended s" by simp
    have rc: "is_recipient s1 j p = (is_recipient s j p \<or> (js_to_string j = ?k \<and> p = peer c))" for j p
      using c(2) by (auto simp: is_recipient_def tr)
    show ?thesis
      using c(1-3) ef su qu by (simp add: rc tr)
  next
    case d
    note pa = add_unsent_Inr [OF d(2)]
    from pa have tr: "tweetRecipients s1 = tweetRecipients s" by simp
    from pa have qu: "\<forall>p j. is_queued s1 p j = (is_queued s p j \<or> (p = peer c \<and> j = i))" by simp
    from pa have ef: "effects s1 = effects s @ [SendFailed (peer c) (Tweet d)]" by simp
    from pa have su: "suspended s1 = suspended s" by simp
    show ?thesis
      using d(1) ef su qu by (auto simp: is_recipient_def tr)
  qed
  from all show "effects s1 = effects s @ [if sendable c then Sent (peer c) (Tweet d)
                                    else SendFailed (peer c) (Tweet d)]" by (rule conjunct1)
  from all show "suspended s1 = suspended s" by simp
  from all show "\<And>j. j \<noteq> js_to_string i \<Longrightarrow> tweetRecipients s1 j = tweetRecipients s j" by simp
  from all show "\<And>j. (tweetRecipients s1 j = None) = (tweetRecipients s j = None)" by simp
  from all show "\<And>ps. tweetRecipients s (js_to_string i) = Some ps \<Longrightarrow> peer c \<in> set ps \<Longrightarrow>
           tweetRecipients s1 (js_to_string i) = Some ps" by simp
  from all show "\<And>j p. is_recipient s j p \<Longrightarrow> is_recipient s1 j p" by simp
  from all show "\<And>j p. is_recipient s1 j p \<Longrightarrow>
           is_recipient s j p \<or> (js_to_string j = js_to_string i \<and> p = peer c \<and> sendable c)"
    by blast
  from all show "sendable c \<Longrightarrow> tweetRecipients s (js_to_string i) \<noteq> None \<Longrightarrow> is_recipient s1 i (peer c)"
    by blast
  from all show "\<And>p j. p \<noteq> peer c \<or> j \<noteq> i \<Longrightarrow> is_queued s1 p j = is_queued s p j" by blast
  from all show "\<not> sendable c \<Longrightarrow> is_queued s1 (peer c) i" by blast
  from all show "\<And>p j. sendable c \<Longrightarrow> is_queued s1 p j \<Longrightarrow> is_queued s p j" by blast
qed

end
